theory Spec2Isabelle
  imports Complex_Main
begin

section \<open>Go slices over an explicit store\<close>

text \<open>
  The recorder keeps \<^verbatim>\<open>[]Action\<close>, \<^verbatim>\<open>[]vg.Length\<close> and \<^verbatim>\<open>vg.Path\<close> values. A Go slice is
  a window (offset, length, capacity) on a backing array that other slices may share, so
  the backing arrays live in a store: a list of arrays, an array's address being its index.
  A freshly allocated array goes to the end of the list. The nil slice has no array.
\<close>

record slice =
  sl_ptr :: "nat option"
  sl_off :: nat
  sl_len :: nat
  sl_cap :: nat

definition nil_slice :: slice where
  "nil_slice = \<lparr>sl_ptr = None, sl_off = 0, sl_len = 0, sl_cap = 0\<rparr>"

text \<open>Reading an array; an address that was never allocated (which Go's memory safety
  excludes) reads as the empty array.\<close>

definition arr_at :: "'a list list \<Rightarrow> nat \<Rightarrow> 'a list" where
  "arr_at arrs a = (if a < length arrs then arrs ! a else [])"

text \<open>The elements \<^verbatim>\<open>s[0], ..., s[len(s)-1]\<close> of a slice.\<close>

definition slice_elems :: "'a list list \<Rightarrow> slice \<Rightarrow> 'a list" where
  "slice_elems arrs sl =
     (case sl_ptr sl of
        None \<Rightarrow> []
      | Some a \<Rightarrow> take (sl_len sl) (drop (sl_off sl) (arr_at arrs a)))"

text \<open>What a formatter sees of a slice: \<open>None\<close> for the nil slice, which \<^verbatim>\<open>%#v\<close> prints
  differently from an empty one.\<close>

definition slice_view :: "'a list list \<Rightarrow> slice \<Rightarrow> 'a list option" where
  "slice_view arrs sl =
     (case sl_ptr sl of None \<Rightarrow> None | Some a \<Rightarrow> Some (slice_elems arrs sl))"

text \<open>A slice the Go runtime can have produced: its window lies inside its array.\<close>

definition slice_ok :: "'a list list \<Rightarrow> slice \<Rightarrow> bool" where
  "slice_ok arrs sl =
     (case sl_ptr sl of
        None \<Rightarrow> sl_len sl = 0 \<and> sl_cap sl = 0
      | Some a \<Rightarrow> a < length arrs \<and> sl_len sl \<le> sl_cap sl
                 \<and> sl_off sl + sl_cap sl \<le> length (arrs ! a))"

text \<open>Storing the values \<open>vs\<close> into an array from index \<open>i\<close> on.\<close>

fun write_at :: "'a list \<Rightarrow> nat \<Rightarrow> 'a list \<Rightarrow> 'a list" where
  "write_at xs i [] = xs"
| "write_at xs i (v # vs) = write_at (xs[i := v]) (Suc i) vs"

text \<open>
  The builtin \<^verbatim>\<open>append(s, xs...)\<close>. When the capacity suffices the values are written into
  the array of \<open>s\<close>, behind its last element. Otherwise a new array is allocated, holding the
  elements of \<open>s\<close>, then \<open>xs\<close>, then \<open>spare\<close> zero values \<open>z\<close>: the language leaves the new
  capacity to the runtime, so \<open>spare\<close> is an input.
\<close>

definition go_append ::
    "'a \<Rightarrow> nat \<Rightarrow> 'a list list \<Rightarrow> slice \<Rightarrow> 'a list \<Rightarrow> 'a list list \<times> slice" where
  "go_append z spare arrs sl xs =
     (if sl_len sl + length xs \<le> sl_cap sl then
        (case sl_ptr sl of
           None \<Rightarrow> (arrs, sl)
         | Some a \<Rightarrow>
             (arrs[a := write_at (arr_at arrs a) (sl_off sl + sl_len sl) xs],
              sl\<lparr>sl_len := sl_len sl + length xs\<rparr>))
      else
        (arrs @ [slice_elems arrs sl @ xs @ replicate spare z],
         \<lparr>sl_ptr = Some (length arrs), sl_off = 0,
          sl_len = sl_len sl + length xs, sl_cap = sl_len sl + length xs + spare\<rparr>))"

text \<open>The slice expression \<^verbatim>\<open>s[:n]\<close>: it panics (\<open>None\<close>) when \<open>n\<close> exceeds the capacity.\<close>

definition go_slice_to :: "slice \<Rightarrow> nat \<Rightarrow> slice option" where
  "go_slice_to sl n = (if n \<le> sl_cap sl then Some (sl\<lparr>sl_len := n\<rparr>) else None)"

text \<open>The builtin \<^verbatim>\<open>copy(dst, src)\<close>: the first \<open>min (len dst) (len src)\<close> elements of
  \<open>src\<close> are read, then stored into \<open>dst\<close> (the two may overlap).\<close>

definition go_copy :: "'a list list \<Rightarrow> slice \<Rightarrow> slice \<Rightarrow> 'a list list" where
  "go_copy arrs dst src =
     (let vals = take (min (sl_len dst) (sl_len src)) (slice_elems arrs src)
      in case sl_ptr dst of
           None \<Rightarrow> arrs
         | Some a \<Rightarrow> arrs[a := write_at (arr_at arrs a) (sl_off dst) vals])"

text \<open>The assignment \<^verbatim>\<open>s[i] = v\<close>, as code holding a slice can do it; an index out of
  range panics.\<close>

definition go_store :: "'a list list \<Rightarrow> slice \<Rightarrow> nat \<Rightarrow> 'a \<Rightarrow> 'a list list option" where
  "go_store arrs sl i v =
     (if i < sl_len sl then
        (case sl_ptr sl of
           None \<Rightarrow> None
         | Some a \<Rightarrow> Some (arrs[a := (arr_at arrs a)[sl_off sl + i := v]]))
      else None)"

section \<open>Call-site stamps\<close>

text \<open>The struct \<^verbatim>\<open>callRecorder\<close>; its fields \<^verbatim>\<open>file\<close> and \<^verbatim>\<open>line\<close> are \<open>cr_file\<close> and \<open>cr_line\<close> here.\<close>

record callRecorder =
  haveCaller :: bool
  cr_file :: string
  cr_line :: int

text \<open>The zero value, which a composite literal such as \<^verbatim>\<open>&Push{}\<close> gives the \<^verbatim>\<open>cr\<close> field.\<close>

definition zero_cr :: callRecorder where
  "zero_cr = \<lparr>haveCaller = False, cr_file = [], cr_line = 0\<rparr>"

text \<open>
  What is not decided by the program text is an input of each call: the answer of
  \<^verbatim>\<open>runtime.Caller(3)\<close> at that call (file, line and whether the frame was found), and the
  spare capacity the runtime adds when \<^verbatim>\<open>append\<close> has to allocate (for the log, and for the
  copy of a dash list or a path).
\<close>

record env =
  caller_file :: string
  caller_line :: int
  caller_ok :: bool
  grow_spare :: nat
  copy_spare :: nat

text \<open>\<^verbatim>\<open>_, c.file, c.line, c.haveCaller = runtime.Caller(3)\<close>\<close>

definition caller :: "env \<Rightarrow> callRecorder \<Rightarrow> callRecorder" where
  "caller e c = c\<lparr>cr_file := caller_file e, cr_line := caller_line e, haveCaller := caller_ok e\<rparr>"

text \<open>Decimal digits, as \<^verbatim>\<open>%d\<close> prints an \<^verbatim>\<open>int\<close>.\<close>

fun show_nat :: "nat \<Rightarrow> string" where
  "show_nat n =
     (if n < 10 then [''0123456789'' ! n]
      else show_nat (n div 10) @ [''0123456789'' ! (n mod 10)])"

declare show_nat.simps [simp del]

definition show_int :: "int \<Rightarrow> string" where
  "show_int i = (if i < 0 then ''-'' @ show_nat (nat (- i)) else show_nat (nat i))"

text \<open>\<^verbatim>\<open>callRecorder.String\<close>\<close>

definition callRecorder_String :: "callRecorder \<Rightarrow> string" where
  "callRecorder_String c =
     (if \<not> haveCaller c then ''''
      else cr_file c @ '':'' @ show_int (cr_line c) @ '' '')"

text \<open>
  \<^verbatim>\<open>Push.VgCall\<close>, \<^verbatim>\<open>Pop.VgCall\<close> and \<^verbatim>\<open>DPI.VgCall\<close> hand the record pointer \<^verbatim>\<open>a\<close> itself to
  the verb \<^verbatim>\<open>%s\<close>, not \<^verbatim>\<open>a.cr\<close>. The pointer types have no \<^verbatim>\<open>String\<close> method, so package
  \<^verbatim>\<open>fmt\<close> prints by reflection: \<^verbatim>\<open>&\<close> for a pointer to a struct at top level, each struct
  as its fields between braces separated by a space, no method called on the unexported
  field \<^verbatim>\<open>cr\<close>, a string as itself, and a \<^verbatim>\<open>bool\<close> or \<^verbatim>\<open>int\<close> under \<^verbatim>\<open>%s\<close> as
  \<^verbatim>\<open>%!s(type=value)\<close>.
\<close>

definition fmt_s_record_ptr :: "callRecorder \<Rightarrow> string" where
  "fmt_s_record_ptr c =
     ''&{{%!s(bool='' @ (if haveCaller c then ''true'' else ''false'') @ '') ''
       @ cr_file c @ '' %!s(int='' @ show_int (cr_line c) @ '')}}''"

section \<open>Records of the primitives\<close>

text \<open>
  The types of package \<^verbatim>\<open>vg\<close> and \<^verbatim>\<open>image/color\<close> are declared outside the files at hand
  and the recorder never looks inside them: \<open>'f\<close> stands for \<^verbatim>\<open>float64\<close> and \<^verbatim>\<open>vg.Length\<close>
  (a named \<^verbatim>\<open>float64\<close>), \<open>'c\<close> for a \<^verbatim>\<open>color.Color\<close>, \<open>'p\<close> for a \<^verbatim>\<open>vg.PathComp\<close>. The
  verbs that print them are parameters of the rendering.
\<close>

record ('f, 'c, 'p) formatters =
  fmt_v_Length :: "'f \<Rightarrow> string"
  fmt_v_float64 :: "'f \<Rightarrow> string"
  fmt_sharpv_Lengths :: "'f list option \<Rightarrow> string"
  fmt_sharpv_Color :: "'c \<Rightarrow> string"
  fmt_sharpv_Path :: "'p list option \<Rightarrow> string"
  fmt_q :: "string \<Rightarrow> string"

text \<open>Modelled from the spec: \<^verbatim>\<open>vg.Font\<close>, a font descriptor, of which \<^verbatim>\<open>Canvas.FillString\<close>
  reads the field \<^verbatim>\<open>Size\<close> and the result of the method \<^verbatim>\<open>Name()\<close>.\<close>

record 'f Font =
  Size :: 'f
  Name :: string

text \<open>One constructor for each struct type that implements \<^verbatim>\<open>Action\<close>, its fields in the
  order of their declaration, \<^verbatim>\<open>cr\<close> last. A slice field holds the slice, not its elements.\<close>

datatype ('f, 'c) action =
    SetWidth 'f callRecorder
  | SetLineDash slice 'f callRecorder
  | SetColor 'c callRecorder
  | Rotate 'f callRecorder
  | Translate 'f 'f callRecorder
  | Scale 'f 'f callRecorder
  | Push callRecorder
  | Pop callRecorder
  | Stroke slice callRecorder
  | Fill slice callRecorder
  | FillString string 'f 'f 'f string callRecorder
  | DPI callRecorder

text \<open>
  The store: the backing arrays of the three slice types, the records (an \<^verbatim>\<open>Action\<close> is a
  pointer to one, or nil; a record's address is its index) and the \<^verbatim>\<open>vg.Font\<close> variables
  of the calling code.
\<close>

record ('f, 'c, 'p) store =
  act_arrs :: "nat option list list"
  len_arrs :: "'f list list"
  path_arrs :: "'p list list"
  objs :: "('f, 'c) action list"
  font_vars :: "'f Font list"

text \<open>The method \<^verbatim>\<open>callRecorder()\<close> returns \<^verbatim>\<open>&a.cr\<close>: reading and updating through it.\<close>

fun callRecorder_of :: "('f, 'c) action \<Rightarrow> callRecorder" where
  "callRecorder_of (SetWidth l cr) = cr"
| "callRecorder_of (SetLineDash ds off cr) = cr"
| "callRecorder_of (SetColor col cr) = cr"
| "callRecorder_of (Rotate a cr) = cr"
| "callRecorder_of (Translate x y cr) = cr"
| "callRecorder_of (Scale x y cr) = cr"
| "callRecorder_of (Push cr) = cr"
| "callRecorder_of (Pop cr) = cr"
| "callRecorder_of (Stroke p cr) = cr"
| "callRecorder_of (Fill p cr) = cr"
| "callRecorder_of (FillString fnt sz x y str cr) = cr"
| "callRecorder_of (DPI cr) = cr"

fun update_callRecorder ::
    "(callRecorder \<Rightarrow> callRecorder) \<Rightarrow> ('f, 'c) action \<Rightarrow> ('f, 'c) action" where
  "update_callRecorder g (SetWidth l cr) = SetWidth l (g cr)"
| "update_callRecorder g (SetLineDash ds off cr) = SetLineDash ds off (g cr)"
| "update_callRecorder g (SetColor col cr) = SetColor col (g cr)"
| "update_callRecorder g (Rotate a cr) = Rotate a (g cr)"
| "update_callRecorder g (Translate x y cr) = Translate x y (g cr)"
| "update_callRecorder g (Scale x y cr) = Scale x y (g cr)"
| "update_callRecorder g (Push cr) = Push (g cr)"
| "update_callRecorder g (Pop cr) = Pop (g cr)"
| "update_callRecorder g (Stroke p cr) = Stroke p (g cr)"
| "update_callRecorder g (Fill p cr) = Fill p (g cr)"
| "update_callRecorder g (FillString fnt sz x y str cr) = FillString fnt sz x y str (g cr)"
| "update_callRecorder g (DPI cr) = DPI (g cr)"

text \<open>
  The methods \<^verbatim>\<open>VgCall\<close>, one for each record type. Each takes the formatters of the verbs
  it uses and the fields it prints; \<^verbatim>\<open>%s\<close> of \<^verbatim>\<open>a.cr\<close> calls \<^verbatim>\<open>callRecorder.String\<close>.
  A dash list or a path is passed as the formatter sees it when the record is rendered.
\<close>

definition SetWidth_VgCall :: "('f \<Rightarrow> string) \<Rightarrow> 'f \<Rightarrow> callRecorder \<Rightarrow> string" where
  "SetWidth_VgCall v_Length l cr = callRecorder_String cr @ ''SetWidth('' @ v_Length l @ '')''"

definition SetLineDash_VgCall ::
    "('f list option \<Rightarrow> string) \<Rightarrow> ('f \<Rightarrow> string) \<Rightarrow> 'f list option \<Rightarrow> 'f \<Rightarrow> callRecorder
       \<Rightarrow> string" where
  "SetLineDash_VgCall sharpv_Lengths v_Length dashes offsets cr =
     callRecorder_String cr @ ''SetLineDash('' @ sharpv_Lengths dashes @ '', ''
       @ v_Length offsets @ '')''"

definition SetColor_VgCall :: "('c \<Rightarrow> string) \<Rightarrow> 'c \<Rightarrow> callRecorder \<Rightarrow> string" where
  "SetColor_VgCall sharpv_Color col cr =
     callRecorder_String cr @ ''SetColor('' @ sharpv_Color col @ '')''"

definition Rotate_VgCall :: "('f \<Rightarrow> string) \<Rightarrow> 'f \<Rightarrow> callRecorder \<Rightarrow> string" where
  "Rotate_VgCall v_float64 angle cr = callRecorder_String cr @ ''Rotate('' @ v_float64 angle @ '')''"

definition Translate_VgCall :: "('f \<Rightarrow> string) \<Rightarrow> 'f \<Rightarrow> 'f \<Rightarrow> callRecorder \<Rightarrow> string" where
  "Translate_VgCall v_Length x y cr =
     callRecorder_String cr @ ''Translate('' @ v_Length x @ '', '' @ v_Length y @ '')''"

definition Scale_VgCall :: "('f \<Rightarrow> string) \<Rightarrow> 'f \<Rightarrow> 'f \<Rightarrow> callRecorder \<Rightarrow> string" where
  "Scale_VgCall v_float64 x y cr =
     callRecorder_String cr @ ''Scale('' @ v_float64 x @ '', '' @ v_float64 y @ '')''"

text \<open>\<^verbatim>\<open>fmt.Sprintf("%sPush()", a)\<close>, and the same in \<^verbatim>\<open>Pop\<close> and \<^verbatim>\<open>DPI\<close>.\<close>

definition Push_VgCall :: "callRecorder \<Rightarrow> string" where
  "Push_VgCall cr = fmt_s_record_ptr cr @ ''Push()''"

definition Pop_VgCall :: "callRecorder \<Rightarrow> string" where
  "Pop_VgCall cr = fmt_s_record_ptr cr @ ''Pop()''"

definition Stroke_VgCall ::
    "('p list option \<Rightarrow> string) \<Rightarrow> 'p list option \<Rightarrow> callRecorder \<Rightarrow> string" where
  "Stroke_VgCall sharpv_Path path cr =
     callRecorder_String cr @ ''Stroke('' @ sharpv_Path path @ '')''"

definition Fill_VgCall ::
    "('p list option \<Rightarrow> string) \<Rightarrow> 'p list option \<Rightarrow> callRecorder \<Rightarrow> string" where
  "Fill_VgCall sharpv_Path path cr =
     callRecorder_String cr @ ''Fill('' @ sharpv_Path path @ '')''"

definition FillString_VgCall ::
    "(string \<Rightarrow> string) \<Rightarrow> ('f \<Rightarrow> string) \<Rightarrow> string \<Rightarrow> 'f \<Rightarrow> 'f \<Rightarrow> 'f \<Rightarrow> string
       \<Rightarrow> callRecorder \<Rightarrow> string" where
  "FillString_VgCall q v_Length font sz x y str cr =
     callRecorder_String cr @ ''FillString('' @ q font @ '', '' @ v_Length sz @ '', ''
       @ v_Length x @ '', '' @ v_Length y @ '', '' @ q str @ '')''"

definition DPI_VgCall :: "callRecorder \<Rightarrow> string" where
  "DPI_VgCall cr = fmt_s_record_ptr cr @ ''DPI()''"

text \<open>The call \<^verbatim>\<open>a.VgCall()\<close> on an \<^verbatim>\<open>Action\<close>: the method of the record's type.\<close>

fun VgCall :: "('f, 'c, 'p) formatters \<Rightarrow> ('f, 'c, 'p) store \<Rightarrow> ('f, 'c) action \<Rightarrow> string" where
  "VgCall F s (SetWidth l cr) = SetWidth_VgCall (fmt_v_Length F) l cr"
| "VgCall F s (SetLineDash ds off cr) =
     SetLineDash_VgCall (fmt_sharpv_Lengths F) (fmt_v_Length F) (slice_view (len_arrs s) ds) off cr"
| "VgCall F s (SetColor col cr) = SetColor_VgCall (fmt_sharpv_Color F) col cr"
| "VgCall F s (Rotate a cr) = Rotate_VgCall (fmt_v_float64 F) a cr"
| "VgCall F s (Translate x y cr) = Translate_VgCall (fmt_v_Length F) x y cr"
| "VgCall F s (Scale x y cr) = Scale_VgCall (fmt_v_float64 F) x y cr"
| "VgCall F s (Push cr) = Push_VgCall cr"
| "VgCall F s (Pop cr) = Pop_VgCall cr"
| "VgCall F s (Stroke p cr) = Stroke_VgCall (fmt_sharpv_Path F) (slice_view (path_arrs s) p) cr"
| "VgCall F s (Fill p cr) = Fill_VgCall (fmt_sharpv_Path F) (slice_view (path_arrs s) p) cr"
| "VgCall F s (FillString fnt sz x y str cr) =
     FillString_VgCall (fmt_q F) (fmt_v_Length F) fnt sz x y str cr"
| "VgCall F s (DPI cr) = DPI_VgCall cr"

section \<open>The canvas\<close>

record 'f Canvas =
  Resolution :: 'f
  Base :: slice
  Actions :: slice
  KeepCaller :: bool

type_synonym ('f, 'c, 'p) state = "'f Canvas \<times> ('f, 'c, 'p) store"

definition New :: "'f \<Rightarrow> slice \<Rightarrow> 'f Canvas" where
  "New dpi base = \<lparr>Resolution = dpi, Base = base, Actions = base, KeepCaller = False\<rparr>"

text \<open>\<^verbatim>\<open>c.Actions = c.Actions[:len(c.Base)]; copy(c.Actions, c.Base)\<close>\<close>

definition Canvas_Reset :: "('f, 'c, 'p) state \<Rightarrow> ('f, 'c, 'p) state option" where
  "Canvas_Reset st =
     (case st of (c, s) \<Rightarrow>
        (case go_slice_to (Actions c) (sl_len (Base c)) of
           None \<Rightarrow> None
         | Some acts \<Rightarrow>
             Some (c\<lparr>Actions := acts\<rparr>, s\<lparr>act_arrs := go_copy (act_arrs s) acts (Base c)\<rparr>)))"

text \<open>\<^verbatim>\<open>Canvas.append\<close>; the action \<open>r\<close> is the address of a record.\<close>

definition Canvas_append :: "env \<Rightarrow> nat \<Rightarrow> ('f, 'c, 'p) state \<Rightarrow> ('f, 'c, 'p) state" where
  "Canvas_append e r st =
     (case st of (c, s) \<Rightarrow>
        (let s1 = (if KeepCaller c
                   then s\<lparr>objs := (objs s)[r := update_callRecorder (caller e) (objs s ! r)]\<rparr>
                   else s);
             (arrs, acts) = go_append None (grow_spare e) (act_arrs s1) (Actions c) [Some r]
         in (c\<lparr>Actions := acts\<rparr>, s1\<lparr>act_arrs := arrs\<rparr>)))"

text \<open>A composite literal \<^verbatim>\<open>&T{...}\<close> allocates a record and yields its address.\<close>

definition new_obj ::
    "('f, 'c) action \<Rightarrow> ('f, 'c, 'p) store \<Rightarrow> nat \<times> ('f, 'c, 'p) store" where
  "new_obj a s = (length (objs s), s\<lparr>objs := objs s @ [a]\<rparr>)"

definition Canvas_SetLineWidth ::
    "env \<Rightarrow> 'f \<Rightarrow> ('f, 'c, 'p) state \<Rightarrow> ('f, 'c, 'p) state" where
  "Canvas_SetLineWidth e w st =
     (case st of (c, s) \<Rightarrow>
        (let (r, s1) = new_obj (SetWidth w zero_cr) s in Canvas_append e r (c, s1)))"

text \<open>\<^verbatim>\<open>Dashes: append([]vg.Length(nil), dashes...)\<close>\<close>

definition Canvas_SetLineDash ::
    "env \<Rightarrow> slice \<Rightarrow> 'f::zero \<Rightarrow> ('f, 'c, 'p) state \<Rightarrow> ('f, 'c, 'p) state" where
  "Canvas_SetLineDash e dashes offs st =
     (case st of (c, s) \<Rightarrow>
        (let (arrs, ds) = go_append 0 (copy_spare e) (len_arrs s) nil_slice
                            (slice_elems (len_arrs s) dashes);
             (r, s1) = new_obj (SetLineDash ds offs zero_cr) (s\<lparr>len_arrs := arrs\<rparr>)
         in Canvas_append e r (c, s1)))"

definition Canvas_SetColor ::
    "env \<Rightarrow> 'c \<Rightarrow> ('f, 'c, 'p) state \<Rightarrow> ('f, 'c, 'p) state" where
  "Canvas_SetColor e col st =
     (case st of (c, s) \<Rightarrow>
        (let (r, s1) = new_obj (SetColor col zero_cr) s in Canvas_append e r (c, s1)))"

definition Canvas_Rotate ::
    "env \<Rightarrow> 'f \<Rightarrow> ('f, 'c, 'p) state \<Rightarrow> ('f, 'c, 'p) state" where
  "Canvas_Rotate e a st =
     (case st of (c, s) \<Rightarrow>
        (let (r, s1) = new_obj (Rotate a zero_cr) s in Canvas_append e r (c, s1)))"

definition Canvas_Translate ::
    "env \<Rightarrow> 'f \<Rightarrow> 'f \<Rightarrow> ('f, 'c, 'p) state \<Rightarrow> ('f, 'c, 'p) state" where
  "Canvas_Translate e x y st =
     (case st of (c, s) \<Rightarrow>
        (let (r, s1) = new_obj (Translate x y zero_cr) s in Canvas_append e r (c, s1)))"

definition Canvas_Scale ::
    "env \<Rightarrow> 'f \<Rightarrow> 'f \<Rightarrow> ('f, 'c, 'p) state \<Rightarrow> ('f, 'c, 'p) state" where
  "Canvas_Scale e x y st =
     (case st of (c, s) \<Rightarrow>
        (let (r, s1) = new_obj (Scale x y zero_cr) s in Canvas_append e r (c, s1)))"

definition Canvas_Push :: "env \<Rightarrow> ('f, 'c, 'p) state \<Rightarrow> ('f, 'c, 'p) state" where
  "Canvas_Push e st =
     (case st of (c, s) \<Rightarrow>
        (let (r, s1) = new_obj (Push zero_cr) s in Canvas_append e r (c, s1)))"

definition Canvas_Pop :: "env \<Rightarrow> ('f, 'c, 'p) state \<Rightarrow> ('f, 'c, 'p) state" where
  "Canvas_Pop e st =
     (case st of (c, s) \<Rightarrow>
        (let (r, s1) = new_obj (Pop zero_cr) s in Canvas_append e r (c, s1)))"

text \<open>\<^verbatim>\<open>Path: append(vg.Path(nil), path...)\<close>\<close>

definition Canvas_Stroke ::
    "env \<Rightarrow> slice \<Rightarrow> ('f, 'c, 'p::zero) state \<Rightarrow> ('f, 'c, 'p) state" where
  "Canvas_Stroke e path st =
     (case st of (c, s) \<Rightarrow>
        (let (arrs, p) = go_append 0 (copy_spare e) (path_arrs s) nil_slice
                           (slice_elems (path_arrs s) path);
             (r, s1) = new_obj (Stroke p zero_cr) (s\<lparr>path_arrs := arrs\<rparr>)
         in Canvas_append e r (c, s1)))"

definition Canvas_Fill ::
    "env \<Rightarrow> slice \<Rightarrow> ('f, 'c, 'p::zero) state \<Rightarrow> ('f, 'c, 'p) state" where
  "Canvas_Fill e path st =
     (case st of (c, s) \<Rightarrow>
        (let (arrs, p) = go_append 0 (copy_spare e) (path_arrs s) nil_slice
                           (slice_elems (path_arrs s) path);
             (r, s1) = new_obj (Fill p zero_cr) (s\<lparr>path_arrs := arrs\<rparr>)
         in Canvas_append e r (c, s1)))"

definition Canvas_FillString ::
    "env \<Rightarrow> 'f Font \<Rightarrow> 'f \<Rightarrow> 'f \<Rightarrow> string \<Rightarrow> ('f, 'c, 'p) state \<Rightarrow> ('f, 'c, 'p) state" where
  "Canvas_FillString e font x y str st =
     (case st of (c, s) \<Rightarrow>
        (let (r, s1) = new_obj (FillString (Name font) (Size font) x y str zero_cr) s
         in Canvas_append e r (c, s1)))"

text \<open>\<^verbatim>\<open>c.append(&DPI{}); return c.Resolution\<close>\<close>

definition Canvas_DPI :: "env \<Rightarrow> ('f, 'c, 'p) state \<Rightarrow> 'f \<times> ('f, 'c, 'p) state" where
  "Canvas_DPI e st =
     (case st of (c, s) \<Rightarrow>
        (let (r, s1) = new_obj (DPI zero_cr) s;
             st' = Canvas_append e r (c, s1)
         in (Resolution (fst st'), st')))"

section \<open>Calls and runs\<close>

text \<open>What code holding the canvas can do with it: the twelve methods of \<^verbatim>\<open>vg.Canvas\<close>,
  \<^verbatim>\<open>Reset\<close>, and an assignment to the exported field \<^verbatim>\<open>KeepCaller\<close>.\<close>

datatype ('f, 'c) call =
    Call_SetLineWidth 'f
  | Call_SetLineDash slice 'f
  | Call_SetColor 'c
  | Call_Rotate 'f
  | Call_Translate 'f 'f
  | Call_Scale 'f 'f
  | Call_Push
  | Call_Pop
  | Call_Stroke slice
  | Call_Fill slice
  | Call_FillString "'f Font" 'f 'f string
  | Call_DPI
  | Call_Reset
  | Set_KeepCaller bool

fun exec ::
    "env \<Rightarrow> ('f::zero, 'c) call \<Rightarrow> ('f, 'c, 'p::zero) state \<Rightarrow> ('f, 'c, 'p) state option" where
  "exec e (Call_SetLineWidth w) st = Some (Canvas_SetLineWidth e w st)"
| "exec e (Call_SetLineDash dashes offs) st = Some (Canvas_SetLineDash e dashes offs st)"
| "exec e (Call_SetColor col) st = Some (Canvas_SetColor e col st)"
| "exec e (Call_Rotate a) st = Some (Canvas_Rotate e a st)"
| "exec e (Call_Translate x y) st = Some (Canvas_Translate e x y st)"
| "exec e (Call_Scale x y) st = Some (Canvas_Scale e x y st)"
| "exec e Call_Push st = Some (Canvas_Push e st)"
| "exec e Call_Pop st = Some (Canvas_Pop e st)"
| "exec e (Call_Stroke path) st = Some (Canvas_Stroke e path st)"
| "exec e (Call_Fill path) st = Some (Canvas_Fill e path st)"
| "exec e (Call_FillString font x y str) st = Some (Canvas_FillString e font x y str st)"
| "exec e Call_DPI st = Some (snd (Canvas_DPI e st))"
| "exec e Call_Reset st = Canvas_Reset st"
| "exec e (Set_KeepCaller b) st = Some ((fst st)\<lparr>KeepCaller := b\<rparr>, snd st)"

fun is_primitive :: "('f, 'c) call \<Rightarrow> bool" where
  "is_primitive Call_Reset = False"
| "is_primitive (Set_KeepCaller b) = False"
| "is_primitive k = True"

fun run ::
    "(env \<times> ('f::zero, 'c) call) list \<Rightarrow> ('f, 'c, 'p::zero) state
       \<Rightarrow> ('f, 'c, 'p) state option" where
  "run [] st = Some st"
| "run ((e, k) # ks) st = (case exec e k st of None \<Rightarrow> None | Some st' \<Rightarrow> run ks st')"

text \<open>The log and the baseline as the test code reads them: the records the elements of
  \<^verbatim>\<open>c.Actions\<close> and \<^verbatim>\<open>c.Base\<close> point to (\<open>None\<close> for a nil \<^verbatim>\<open>Action\<close>).\<close>

definition deref :: "('f, 'c, 'p) store \<Rightarrow> nat option \<Rightarrow> ('f, 'c) action option" where
  "deref s r =
     (case r of None \<Rightarrow> None
      | Some a \<Rightarrow> if a < length (objs s) then Some (objs s ! a) else None)"

definition log_refs :: "('f, 'c, 'p) state \<Rightarrow> nat option list" where
  "log_refs st = slice_elems (act_arrs (snd st)) (Actions (fst st))"

definition base_refs :: "('f, 'c, 'p) state \<Rightarrow> nat option list" where
  "base_refs st = slice_elems (act_arrs (snd st)) (Base (fst st))"

definition log_of :: "('f, 'c, 'p) state \<Rightarrow> ('f, 'c) action option list" where
  "log_of st = map (deref (snd st)) (log_refs st)"

definition base_of :: "('f, 'c, 'p) state \<Rightarrow> ('f, 'c) action option list" where
  "base_of st = map (deref (snd st)) (base_refs st)"

section \<open>Well-formed states\<close>

text \<open>Every non-nil \<^verbatim>\<open>Action\<close> in a list points to an allocated record.\<close>

definition refs_ok :: "('f, 'c, 'p) store \<Rightarrow> nat option list \<Rightarrow> bool" where
  "refs_ok s rs = list_all (\<lambda>r. case r of None \<Rightarrow> True | Some a \<Rightarrow> a < length (objs s)) rs"

text \<open>
  The invariant of the canvas: both slices lie inside their arrays, the log is at least as
  long as the baseline and starts with it, a log that is still in the baseline's array
  starts where the baseline starts, and the log points to allocated records only.
\<close>

definition canvas_inv :: "('f, 'c, 'p) state \<Rightarrow> bool" where
  "canvas_inv st =
     (case st of (c, s) \<Rightarrow>
        slice_ok (act_arrs s) (Base c) \<and> slice_ok (act_arrs s) (Actions c)
        \<and> sl_len (Base c) \<le> sl_len (Actions c)
        \<and> take (sl_len (Base c)) (slice_elems (act_arrs s) (Actions c))
            = slice_elems (act_arrs s) (Base c)
        \<and> (sl_ptr (Actions c) = sl_ptr (Base c) \<longrightarrow> sl_off (Actions c) = sl_off (Base c))
        \<and> refs_ok s (slice_elems (act_arrs s) (Actions c)))"

text \<open>What \<^verbatim>\<open>Canvas.append\<close> does to the record it is given.\<close>

definition stamped :: "bool \<Rightarrow> env \<Rightarrow> ('f, 'c) action \<Rightarrow> ('f, 'c) action" where
  "stamped keep e a = (if keep then update_callRecorder (caller e) a else a)"

text \<open>The composite literal each primitive passes to \<^verbatim>\<open>append\<close>, with the store after the
  copies the literal makes; \<open>None\<close> for a call that builds no record.\<close>

fun literal ::
    "env \<Rightarrow> ('f::zero, 'c) call \<Rightarrow> ('f, 'c, 'p::zero) store
       \<Rightarrow> (('f, 'c) action \<times> ('f, 'c, 'p) store) option" where
  "literal e (Call_SetLineWidth w) s = Some (SetWidth w zero_cr, s)"
| "literal e (Call_SetLineDash dashes offs) s =
     (let (arrs, ds) = go_append 0 (copy_spare e) (len_arrs s) nil_slice
                         (slice_elems (len_arrs s) dashes)
      in Some (SetLineDash ds offs zero_cr, s\<lparr>len_arrs := arrs\<rparr>))"
| "literal e (Call_SetColor col) s = Some (SetColor col zero_cr, s)"
| "literal e (Call_Rotate a) s = Some (Rotate a zero_cr, s)"
| "literal e (Call_Translate x y) s = Some (Translate x y zero_cr, s)"
| "literal e (Call_Scale x y) s = Some (Scale x y zero_cr, s)"
| "literal e Call_Push s = Some (Push zero_cr, s)"
| "literal e Call_Pop s = Some (Pop zero_cr, s)"
| "literal e (Call_Stroke path) s =
     (let (arrs, p) = go_append 0 (copy_spare e) (path_arrs s) nil_slice
                        (slice_elems (path_arrs s) path)
      in Some (Stroke p zero_cr, s\<lparr>path_arrs := arrs\<rparr>))"
| "literal e (Call_Fill path) s =
     (let (arrs, p) = go_append 0 (copy_spare e) (path_arrs s) nil_slice
                        (slice_elems (path_arrs s) path)
      in Some (Fill p zero_cr, s\<lparr>path_arrs := arrs\<rparr>))"
| "literal e (Call_FillString font x y str) s =
     Some (FillString (Name font) (Size font) x y str zero_cr, s)"
| "literal e Call_DPI s = Some (DPI zero_cr, s)"
| "literal e Call_Reset s = None"
| "literal e (Set_KeepCaller b) s = None"

section \<open>The rendering the specification describes\<close>

text \<open>
  The specification gives a rendering the shape \<^verbatim>\<open><prefix><Name>(<args>)\<close>: the name of the
  primitive, then the fields of the record in the order of their declaration, separated
  by a comma and a space. These definitions follow its words, for a call and its arguments.
\<close>

fun comma_sep :: "string list \<Rightarrow> string" where
  "comma_sep [] = []"
| "comma_sep [x] = x"
| "comma_sep (x # y # ys) = x @ '', '' @ comma_sep (y # ys)"

text \<open>What a formatter sees of the copy \<^verbatim>\<open>append([]T(nil), xs...)\<close>: the copy of an empty
  slice is the nil slice.\<close>

definition copy_view :: "'a list \<Rightarrow> 'a list option" where
  "copy_view xs = (if xs = [] then None else Some xs)"

fun prim_name :: "('f, 'c) call \<Rightarrow> string" where
  "prim_name (Call_SetLineWidth w) = ''SetWidth''"
| "prim_name (Call_SetLineDash dashes offs) = ''SetLineDash''"
| "prim_name (Call_SetColor col) = ''SetColor''"
| "prim_name (Call_Rotate a) = ''Rotate''"
| "prim_name (Call_Translate x y) = ''Translate''"
| "prim_name (Call_Scale x y) = ''Scale''"
| "prim_name Call_Push = ''Push''"
| "prim_name Call_Pop = ''Pop''"
| "prim_name (Call_Stroke path) = ''Stroke''"
| "prim_name (Call_Fill path) = ''Fill''"
| "prim_name (Call_FillString font x y str) = ''FillString''"
| "prim_name Call_DPI = ''DPI''"
| "prim_name Call_Reset = []"
| "prim_name (Set_KeepCaller b) = []"

fun rendered_args ::
    "('f, 'c, 'p) formatters \<Rightarrow> ('f, 'c, 'p) store \<Rightarrow> ('f, 'c) call \<Rightarrow> string list" where
  "rendered_args F s (Call_SetLineWidth w) = [fmt_v_Length F w]"
| "rendered_args F s (Call_SetLineDash dashes offs) =
     [fmt_sharpv_Lengths F (copy_view (slice_elems (len_arrs s) dashes)), fmt_v_Length F offs]"
| "rendered_args F s (Call_SetColor col) = [fmt_sharpv_Color F col]"
| "rendered_args F s (Call_Rotate a) = [fmt_v_float64 F a]"
| "rendered_args F s (Call_Translate x y) = [fmt_v_Length F x, fmt_v_Length F y]"
| "rendered_args F s (Call_Scale x y) = [fmt_v_float64 F x, fmt_v_float64 F y]"
| "rendered_args F s (Call_Stroke path) =
     [fmt_sharpv_Path F (copy_view (slice_elems (path_arrs s) path))]"
| "rendered_args F s (Call_Fill path) =
     [fmt_sharpv_Path F (copy_view (slice_elems (path_arrs s) path))]"
| "rendered_args F s (Call_FillString font x y str) =
     [fmt_q F (Name font), fmt_v_Length F (Size font), fmt_v_Length F x, fmt_v_Length F y,
      fmt_q F str]"
| "rendered_args F s k = []"

definition call_text ::
    "('f, 'c, 'p) formatters \<Rightarrow> ('f, 'c, 'p) store \<Rightarrow> ('f, 'c) call \<Rightarrow> string" where
  "call_text F s k = prim_name k @ ''('' @ comma_sep (rendered_args F s k) @ '')''"

text \<open>The primitives whose record prints \<^verbatim>\<open>a.cr\<close>: all but \<^verbatim>\<open>Push\<close>, \<^verbatim>\<open>Pop\<close> and
  \<^verbatim>\<open>DPI\<close>.\<close>

fun prints_cr :: "('f, 'c) call \<Rightarrow> bool" where
  "prints_cr Call_Push = False"
| "prints_cr Call_Pop = False"
| "prints_cr Call_DPI = False"
| "prints_cr Call_Reset = False"
| "prints_cr (Set_KeepCaller b) = False"
| "prints_cr k = True"

section \<open>Concrete inputs\<close>

definition empty_store :: "('f, 'c, 'p) store" where
  "empty_store = \<lparr>act_arrs = [], len_arrs = [], path_arrs = [], objs = [], font_vars = []\<rparr>"

text \<open>
  The run of \<^verbatim>\<open>TestRecorder\<close>: a baseline of one \<^verbatim>\<open>FillString\<close> record, then
  \<^verbatim>\<open>Scale(1, 2)\<close>, \<^verbatim>\<open>Rotate(0.72)\<close>, \<^verbatim>\<open>KeepCaller = true\<close> and a \<^verbatim>\<open>Stroke\<close> of a path
  of one component, called from line 20. Numbers are reals here, a path component is a
  number that stands for it.
\<close>

definition test_env :: env where
  "test_env = \<lparr>caller_file = ''recorder_test.go'', caller_line = 20, caller_ok = True,
                grow_spare = 1, copy_spare = 0\<rparr>"

definition test_base :: slice where
  "test_base = \<lparr>sl_ptr = Some 0, sl_off = 0, sl_len = 1, sl_cap = 1\<rparr>"

definition test_path :: slice where
  "test_path = \<lparr>sl_ptr = Some 0, sl_off = 0, sl_len = 1, sl_cap = 1\<rparr>"

definition test_store :: "(real, nat, nat) store" where
  "test_store =
     \<lparr>act_arrs = [[Some 0]], len_arrs = [], path_arrs = [[1]],
      objs = [FillString ''Foo'' 12 0 10 ''Bar'' zero_cr],
      font_vars = [\<lparr>Size = 12, Name = ''Foo''\<rparr>]\<rparr>"

definition test_calls :: "(env \<times> (real, nat) call) list" where
  "test_calls =
     [(test_env, Call_Scale 1 2), (test_env, Call_Rotate 0.72),
      (test_env, Set_KeepCaller True), (test_env, Call_Stroke test_path)]"

text \<open>A baseline with room behind its one element, as \<^verbatim>\<open>make([]Action, 1, 2)\<close> gives.\<close>

definition spare_base :: slice where
  "spare_base = \<lparr>sl_ptr = Some 0, sl_off = 0, sl_len = 1, sl_cap = 2\<rparr>"

definition spare_store :: "(real, nat, nat) store" where
  "spare_store = test_store\<lparr>act_arrs := [[Some 0, None]]\<rparr>"

section \<open>Code outside the recorder\<close>

text \<open>
  The code that called the canvas keeps the arrays and the font it passed, and may write
  to them later: an array of lengths or of path components gets new contents, a
  \<^verbatim>\<open>vg.Font\<close> variable a new value.
\<close>

definition overwrite_lengths :: "('f, 'c, 'p) store \<Rightarrow> nat \<Rightarrow> 'f list \<Rightarrow> ('f, 'c, 'p) store" where
  "overwrite_lengths s a ys = s\<lparr>len_arrs := (len_arrs s)[a := ys]\<rparr>"

definition overwrite_path :: "('f, 'c, 'p) store \<Rightarrow> nat \<Rightarrow> 'p list \<Rightarrow> ('f, 'c, 'p) store" where
  "overwrite_path s a ys = s\<lparr>path_arrs := (path_arrs s)[a := ys]\<rparr>"

definition overwrite_font :: "('f, 'c, 'p) store \<Rightarrow> nat \<Rightarrow> 'f Font \<Rightarrow> ('f, 'c, 'p) store" where
  "overwrite_font s p font = s\<lparr>font_vars := (font_vars s)[p := font]\<rparr>"

section \<open>Slices and append\<close>

lemma length_write_at [simp]: "length (write_at xs i vs) = length xs"
  by (induction vs arbitrary: xs i) auto

lemma nth_write_at:
  "j < length xs \<Longrightarrow>
   write_at xs i vs ! j = (if i \<le> j \<and> j < i + length vs then vs ! (j - i) else xs ! j)"
proof (induction vs arbitrary: xs i)
  case Nil
  then show ?case by auto
next
  case (Cons v vs)
  then show ?case
    by (auto simp: nth_list_update nth_Cons')
qed

lemma write_at_same:
  assumes "vs = take (length vs) (drop i xs)"
  shows "write_at xs i vs = xs"
proof (rule nth_equalityI)
  show "length (write_at xs i vs) = length xs" by simp
next
  fix j assume "j < length (write_at xs i vs)"
  then have j: "j < length xs" by simp
  have "i \<le> j \<Longrightarrow> j < i + length vs \<Longrightarrow> vs ! (j - i) = xs ! j"
  proof -
    assume a: "i \<le> j" "j < i + length vs"
    have "vs ! (j - i) = take (length vs) (drop i xs) ! (j - i)" using assms by simp
    also have "\<dots> = xs ! j" using a j by simp
    finally show ?thesis .
  qed
  then show "write_at xs i vs ! j = xs ! j" using j by (simp add: nth_write_at)
qed

lemma write_at_take: "take i (write_at xs i vs) = take i xs"
  by (rule nth_equalityI) (auto simp: nth_write_at)



lemma slice_elems_length: "slice_ok arrs sl \<Longrightarrow> length (slice_elems arrs sl) = sl_len sl"
  by (auto simp: slice_ok_def slice_elems_def arr_at_def split: option.splits)

lemma take_Suc_drop_update:
  assumes "k + n < length xs"
  shows "take (Suc n) (drop k (xs[k + n := x])) = take n (drop k xs) @ [x]"
proof -
  have d: "drop k (xs[k + n := x]) = (drop k xs)[n := x]"
    by (simp add: drop_update_swap)
  have n: "n < length (drop k xs)" using assms by simp
  show ?thesis unfolding d using n
    by (simp add: take_Suc_conv_app_nth)
qed

lemma take_drop_update_beyond:
  assumes "m \<le> n"
  shows "take m (drop k (xs[k + n := x])) = take m (drop k xs)"
proof -
  have d: "drop k (xs[k + n := x]) = (drop k xs)[n := x]"
    by (simp add: drop_update_swap)
  show ?thesis unfolding d using assms by simp
qed

lemma go_append_single:
  assumes ok: "slice_ok arrs sl" and ap: "go_append z sp arrs sl [x] = (arrs', sl')"
  shows "slice_ok arrs' sl'"
    and "slice_elems arrs' sl' = slice_elems arrs sl @ [x]"
    and "sl_len sl' = Suc (sl_len sl)"
proof -
  have "slice_ok arrs' sl' \<and> slice_elems arrs' sl' = slice_elems arrs sl @ [x]
        \<and> sl_len sl' = Suc (sl_len sl)"
  proof (cases "sl_len sl + 1 \<le> sl_cap sl")
    case True
    then obtain a where a: "sl_ptr sl = Some a" using ok
      by (cases "sl_ptr sl") (auto simp: slice_ok_def)
    have b: "a < length arrs" "sl_off sl + sl_cap sl \<le> length (arrs ! a)"
      using ok a by (auto simp: slice_ok_def)
    have eq: "arrs' = arrs[a := (arrs ! a)[sl_off sl + sl_len sl := x]]"
         "sl' = sl\<lparr>sl_len := Suc (sl_len sl)\<rparr>"
      using ap True a b by (auto simp: go_append_def arr_at_def)
    have lt: "sl_off sl + sl_len sl < length (arrs ! a)" using True b by simp
    show ?thesis using a b True lt unfolding eq
      by (simp add: slice_ok_def slice_elems_def arr_at_def take_Suc_drop_update)
  next
    case False
    then have eq: "arrs' = arrs @ [slice_elems arrs sl @ [x] @ replicate sp z]"
        "sl' = \<lparr>sl_ptr = Some (length arrs), sl_off = 0,
               sl_len = sl_len sl + 1, sl_cap = sl_len sl + 1 + sp\<rparr>"
      using ap by (auto simp: go_append_def)
    show ?thesis unfolding eq using slice_elems_length[OF ok]
      by (simp add: slice_ok_def slice_elems_def[of "arrs @ _"] arr_at_def)
  qed
  then show "slice_ok arrs' sl'" "slice_elems arrs' sl' = slice_elems arrs sl @ [x]"
    "sl_len sl' = Suc (sl_len sl)" by simp_all
qed

lemma go_append_single_other:
  assumes ok: "slice_ok arrs sl" and ap: "go_append z sp arrs sl [x] = (arrs', sl')"
    and okb: "slice_ok arrs b"
    and al: "sl_ptr b = sl_ptr sl \<longrightarrow> sl_off b = sl_off sl \<and> sl_len b \<le> sl_len sl"
  shows "slice_ok arrs' b"
    and "slice_elems arrs' b = slice_elems arrs b"
    and "sl_ptr sl' = sl_ptr b \<longrightarrow> sl_off sl' = sl_off b"
proof -
  have "slice_ok arrs' b \<and> slice_elems arrs' b = slice_elems arrs b
        \<and> (sl_ptr sl' = sl_ptr b \<longrightarrow> sl_off sl' = sl_off b)"
  proof (cases "sl_len sl + 1 \<le> sl_cap sl")
    case True
    then obtain a where a: "sl_ptr sl = Some a" using ok
      by (cases "sl_ptr sl") (auto simp: slice_ok_def)
    have b: "a < length arrs" "sl_off sl + sl_cap sl \<le> length (arrs ! a)"
      using ok a by (auto simp: slice_ok_def)
    have eq: "arrs' = arrs[a := (arrs ! a)[sl_off sl + sl_len sl := x]]"
         "sl' = sl\<lparr>sl_len := Suc (sl_len sl)\<rparr>"
      using ap True a b by (auto simp: go_append_def arr_at_def)
    show ?thesis
    proof (cases "sl_ptr b")
      case None
      then show ?thesis using okb a unfolding eq
        by (simp add: slice_ok_def slice_elems_def)
    next
      case (Some ab)
      show ?thesis
      proof (cases "ab = a")
        case True
        then show ?thesis using Some okb a b al unfolding eq
          by (simp add: slice_ok_def slice_elems_def arr_at_def take_drop_update_beyond)
      next
        case False
        then show ?thesis using Some okb a b unfolding eq
          by (simp add: slice_ok_def slice_elems_def arr_at_def)
      qed
    qed
  next
    case False
    then have eq: "arrs' = arrs @ [slice_elems arrs sl @ [x] @ replicate sp z]"
        "sl' = \<lparr>sl_ptr = Some (length arrs), sl_off = 0,
               sl_len = sl_len sl + 1, sl_cap = sl_len sl + 1 + sp\<rparr>"
      using ap by (auto simp: go_append_def)
    show ?thesis unfolding eq using okb
      by (auto simp: slice_ok_def slice_elems_def arr_at_def nth_append split: option.splits)
  qed
  then show "slice_ok arrs' b" "slice_elems arrs' b = slice_elems arrs b"
    "sl_ptr sl' = sl_ptr b \<longrightarrow> sl_off sl' = sl_off b" by simp_all
qed

lemma map_deref_grow:
  assumes "refs_ok s rs" and "objs s' = objs s @ ys"
  shows "map (deref s') rs = map (deref s) rs"
  using assms
  by (auto simp: refs_ok_def list_all_iff deref_def nth_append split: option.splits)

lemma refs_ok_grow:
  assumes "refs_ok s rs" and "objs s' = objs s @ ys"
  shows "refs_ok s' rs"
  using assms by (auto simp: refs_ok_def list_all_iff split: option.splits)

lemma refs_ok_take: "refs_ok s rs \<Longrightarrow> refs_ok s (take n rs)"
  by (auto simp: refs_ok_def list_all_iff dest: in_set_takeD)

lemma canvas_inv_base_refs_ok:
  "canvas_inv (c, s) \<Longrightarrow> refs_ok s (slice_elems (act_arrs s) (Base c))"
proof -
  assume "canvas_inv (c, s)"
  then have "take (sl_len (Base c)) (slice_elems (act_arrs s) (Actions c))
            = slice_elems (act_arrs s) (Base c)"
    and "refs_ok s (slice_elems (act_arrs s) (Actions c))"
    by (auto simp: canvas_inv_def)
  then show ?thesis using refs_ok_take by metis
qed

lemma Canvas_append_step:
  assumes inv: "canvas_inv (c, s)"
    and s1: "act_arrs s1 = act_arrs s" "objs s1 = objs s @ [a]"
    and ap: "Canvas_append e (length (objs s)) (c, s1) = (c', s')"
  shows "canvas_inv (c', s')"
    and "log_of (c', s') = log_of (c, s) @ [Some (stamped (KeepCaller c) e a)]"
    and "base_of (c', s') = base_of (c, s)"
    and "c' = c\<lparr>Actions := Actions c'\<rparr>"
    and "objs s' = objs s @ [stamped (KeepCaller c) e a]"
    and "len_arrs s' = len_arrs s1" and "path_arrs s' = path_arrs s1"
    and "font_vars s' = font_vars s1"
proof -
  obtain arrs acts where g:
    "go_append None (grow_spare e) (act_arrs s) (Actions c) [Some (length (objs s))] = (arrs, acts)"
    by (cases "go_append None (grow_spare e) (act_arrs s) (Actions c) [Some (length (objs s))]")
  have okA: "slice_ok (act_arrs s) (Actions c)" and okB: "slice_ok (act_arrs s) (Base c)"
    and le: "sl_len (Base c) \<le> sl_len (Actions c)"
    and pre: "take (sl_len (Base c)) (slice_elems (act_arrs s) (Actions c))
            = slice_elems (act_arrs s) (Base c)"
    and al: "sl_ptr (Actions c) = sl_ptr (Base c) \<longrightarrow> sl_off (Actions c) = sl_off (Base c)"
    and ro: "refs_ok s (slice_elems (act_arrs s) (Actions c))"
    using inv by (auto simp: canvas_inv_def)
  have c': "c' = c\<lparr>Actions := acts\<rparr>"
    and arrs': "act_arrs s' = arrs"
    and objs': "objs s' = objs s @ [stamped (KeepCaller c) e a]"
    and rest: "len_arrs s' = len_arrs s1" "path_arrs s' = path_arrs s1"
      "font_vars s' = font_vars s1"
    using ap g s1 by (auto simp: Canvas_append_def stamped_def Let_def split: if_splits)
  note A = go_append_single[OF okA g]
  have al': "sl_ptr (Base c) = sl_ptr (Actions c) \<longrightarrow>
      sl_off (Base c) = sl_off (Actions c) \<and> sl_len (Base c) \<le> sl_len (Actions c)"
    using al le by auto
  note B = go_append_single_other[OF okA g okB al']
  have lenA: "length (slice_elems (act_arrs s) (Actions c)) = sl_len (Actions c)"
    using okA by (rule slice_elems_length)
  have new: "deref s' (Some (length (objs s))) = Some (stamped (KeepCaller c) e a)"
    by (simp add: deref_def objs')
  have old: "map (deref s') (slice_elems (act_arrs s) (Actions c))
           = map (deref s) (slice_elems (act_arrs s) (Actions c))"
    using ro objs' by (rule map_deref_grow)
  have oldB: "map (deref s') (slice_elems (act_arrs s) (Base c))
           = map (deref s) (slice_elems (act_arrs s) (Base c))"
    using canvas_inv_base_refs_ok[OF inv] objs' by (rule map_deref_grow)
  show "log_of (c', s') = log_of (c, s) @ [Some (stamped (KeepCaller c) e a)]"
    by (simp add: log_of_def log_refs_def c' arrs' A(2) new old)
  show "base_of (c', s') = base_of (c, s)"
    by (simp add: base_of_def base_refs_def c' arrs' B(2) oldB)
  show "c' = c\<lparr>Actions := Actions c'\<rparr>" by (simp add: c')
  show "objs s' = objs s @ [stamped (KeepCaller c) e a]" by (rule objs')
  show "len_arrs s' = len_arrs s1" "path_arrs s' = path_arrs s1" "font_vars s' = font_vars s1"
    by (rule rest)+
  have ro': "refs_ok s' (slice_elems arrs acts)"
    using refs_ok_grow[OF ro objs'] by (simp add: A(2) refs_ok_def objs')
  show "canvas_inv (c', s')"
    unfolding canvas_inv_def using A B le pre lenA ro' al
    by (simp add: c' arrs')
qed

lemma exec_primitive:
  assumes "is_primitive k"
  shows "\<exists>a s1. literal e k s = Some (a, s1) \<and> act_arrs s1 = act_arrs s \<and> objs s1 = objs s
           \<and> font_vars s1 = font_vars s
           \<and> exec e k (c, s) = Some (Canvas_append e (length (objs s)) (c, s1\<lparr>objs := objs s @ [a]\<rparr>))"
  using assms
  by (cases k)
     (auto simp: Canvas_SetLineWidth_def Canvas_SetLineDash_def Canvas_SetColor_def
        Canvas_Rotate_def Canvas_Translate_def Canvas_Scale_def Canvas_Push_def Canvas_Pop_def
        Canvas_Stroke_def Canvas_Fill_def Canvas_FillString_def Canvas_DPI_def new_obj_def
        Let_def split: prod.splits)

lemma primitive_step:
  assumes inv: "canvas_inv (c, s)" and prim: "is_primitive k"
  shows "\<exists>a s1 c' s'. literal e k s = Some (a, s1) \<and> exec e k (c, s) = Some (c', s')
           \<and> canvas_inv (c', s')
           \<and> log_of (c', s') = log_of (c, s) @ [Some (stamped (KeepCaller c) e a)]
           \<and> base_of (c', s') = base_of (c, s)
           \<and> c' = c\<lparr>Actions := Actions c'\<rparr>
           \<and> objs s' = objs s @ [stamped (KeepCaller c) e a]
           \<and> len_arrs s' = len_arrs s1 \<and> path_arrs s' = path_arrs s1
           \<and> font_vars s' = font_vars s"
proof -
  obtain a s1 where l: "literal e k s = Some (a, s1)" and s1: "act_arrs s1 = act_arrs s"
      "objs s1 = objs s" "font_vars s1 = font_vars s"
    and ex: "exec e k (c, s) = Some (Canvas_append e (length (objs s)) (c, s1\<lparr>objs := objs s @ [a]\<rparr>))"
    using exec_primitive[OF prim, of e s c] by blast
  obtain c' s' where ap: "Canvas_append e (length (objs s)) (c, s1\<lparr>objs := objs s @ [a]\<rparr>) = (c', s')"
    by (cases "Canvas_append e (length (objs s)) (c, s1\<lparr>objs := objs s @ [a]\<rparr>)")
  have a1: "act_arrs (s1\<lparr>objs := objs s @ [a]\<rparr>) = act_arrs s"
    and a2: "objs (s1\<lparr>objs := objs s @ [a]\<rparr>) = objs s @ [a]"
    using s1 by simp_all
  note st = Canvas_append_step[OF inv a1 a2 ap]
  show ?thesis using l ex ap st s1 by simp
qed

lemma Canvas_Reset_inv:
  assumes inv: "canvas_inv (c, s)"
  shows "Canvas_Reset (c, s) = Some (c\<lparr>Actions := (Actions c)\<lparr>sl_len := sl_len (Base c)\<rparr>\<rparr>, s)"
proof -
  have okA: "slice_ok (act_arrs s) (Actions c)" and okB: "slice_ok (act_arrs s) (Base c)"
    and le: "sl_len (Base c) \<le> sl_len (Actions c)"
    and pre: "take (sl_len (Base c)) (slice_elems (act_arrs s) (Actions c))
            = slice_elems (act_arrs s) (Base c)"
    using inv by (auto simp: canvas_inv_def)
  let ?acts = "(Actions c)\<lparr>sl_len := sl_len (Base c)\<rparr>"
  have cap: "sl_len (Base c) \<le> sl_cap (Actions c)"
    using okA le by (auto simp: slice_ok_def split: option.splits)
  have sl: "go_slice_to (Actions c) (sl_len (Base c)) = Some ?acts"
    using cap by (simp add: go_slice_to_def)
  have cp: "go_copy (act_arrs s) ?acts (Base c) = act_arrs s"
  proof (cases "sl_ptr (Actions c)")
    case None
    then show ?thesis by (simp add: go_copy_def)
  next
    case (Some a)
    then have a: "a < length (act_arrs s)" using okA by (simp add: slice_ok_def)
    let ?vals = "slice_elems (act_arrs s) (Base c)"
    have lv: "length ?vals = sl_len (Base c)" using okB by (rule slice_elems_length)
    have "?vals = take (length ?vals) (drop (sl_off (Actions c)) (act_arrs s ! a))"
      using pre Some a le by (simp add: lv slice_elems_def[of _ "Actions c"] arr_at_def min_def)
    then have "write_at (act_arrs s ! a) (sl_off (Actions c)) ?vals = act_arrs s ! a"
      by (rule write_at_same)
    then show ?thesis using Some a lv by (simp add: go_copy_def arr_at_def Let_def)
  qed
  show ?thesis by (simp add: Canvas_Reset_def sl cp)
qed

lemma Canvas_Reset_step:
  assumes inv: "canvas_inv (c, s)"
  shows "canvas_inv (c\<lparr>Actions := (Actions c)\<lparr>sl_len := sl_len (Base c)\<rparr>\<rparr>, s)"
    and "log_of (c\<lparr>Actions := (Actions c)\<lparr>sl_len := sl_len (Base c)\<rparr>\<rparr>, s) = base_of (c, s)"
    and "base_of (c\<lparr>Actions := (Actions c)\<lparr>sl_len := sl_len (Base c)\<rparr>\<rparr>, s) = base_of (c, s)"
proof -
  have okA: "slice_ok (act_arrs s) (Actions c)" and okB: "slice_ok (act_arrs s) (Base c)"
    and le: "sl_len (Base c) \<le> sl_len (Actions c)"
    and pre: "take (sl_len (Base c)) (slice_elems (act_arrs s) (Actions c))
            = slice_elems (act_arrs s) (Base c)"
    and al: "sl_ptr (Actions c) = sl_ptr (Base c) \<longrightarrow> sl_off (Actions c) = sl_off (Base c)"
    and ro: "refs_ok s (slice_elems (act_arrs s) (Actions c))"
    using inv by (auto simp: canvas_inv_def)
  let ?acts = "(Actions c)\<lparr>sl_len := sl_len (Base c)\<rparr>"
  have el: "slice_elems (act_arrs s) ?acts = slice_elems (act_arrs s) (Base c)"
    using pre le by (auto simp: slice_elems_def[of _ "Actions c"] slice_elems_def[of _ ?acts]
        min_def split: option.splits)
  have ok': "slice_ok (act_arrs s) ?acts"
    using okA le by (auto simp: slice_ok_def split: option.splits)
  show "log_of (c\<lparr>Actions := ?acts\<rparr>, s) = base_of (c, s)"
    by (simp add: log_of_def log_refs_def base_of_def base_refs_def el)
  show "base_of (c\<lparr>Actions := ?acts\<rparr>, s) = base_of (c, s)"
    by (simp add: base_of_def base_refs_def)
  show "canvas_inv (c\<lparr>Actions := ?acts\<rparr>, s)"
    unfolding canvas_inv_def using ok' okB al el canvas_inv_base_refs_ok[OF inv]
      slice_elems_length[OF okB]
    by simp
qed

section \<open>Calls keep the invariant\<close>

lemma New_inv:
  assumes "slice_ok (act_arrs s0) b" and "refs_ok s0 (slice_elems (act_arrs s0) b)"
  shows "canvas_inv (New d b, s0)"
  using assms slice_elems_length[OF assms(1)] by (simp add: canvas_inv_def New_def)

lemma inv_prefix:
  assumes "canvas_inv st"
  shows "take (sl_len (Base (fst st))) (log_of st) = base_of st"
    and "length (base_of st) = sl_len (Base (fst st))"
proof -
  obtain c s where st: "st = (c, s)" by (cases st)
  have okB: "slice_ok (act_arrs s) (Base c)"
    and pre: "take (sl_len (Base c)) (slice_elems (act_arrs s) (Actions c))
            = slice_elems (act_arrs s) (Base c)"
    using assms by (auto simp: canvas_inv_def st)
  show "take (sl_len (Base (fst st))) (log_of st) = base_of st"
    using arg_cong[OF pre, of "map (deref s)"]
    by (simp add: st log_of_def base_of_def log_refs_def base_refs_def take_map)
  show "length (base_of st) = sl_len (Base (fst st))"
    using slice_elems_length[OF okB] by (simp add: st base_of_def base_refs_def)
qed

lemma exec_step:
  assumes inv: "canvas_inv st"
  shows "\<exists>st'. exec e k st = Some st' \<and> canvas_inv st' \<and> base_of st' = base_of st
           \<and> Resolution (fst st') = Resolution (fst st) \<and> Base (fst st') = Base (fst st)
           \<and> (is_primitive k \<longrightarrow> (\<exists>a. log_of st' = log_of st @ [Some a]))
           \<and> (k = Call_Reset \<longrightarrow> log_of st' = base_of st \<and> snd st' = snd st)
           \<and> (\<forall>b. k = Set_KeepCaller b \<longrightarrow> log_of st' = log_of st \<and> snd st' = snd st)"
proof -
  obtain c s where st: "st = (c, s)" by (cases st)
  note inv' = inv[unfolded st]
  show ?thesis
  proof (cases "is_primitive k")
    case True
    obtain a s1 c' s' where *: "exec e k (c, s) = Some (c', s')" "canvas_inv (c', s')"
      "log_of (c', s') = log_of (c, s) @ [Some (stamped (KeepCaller c) e a)]"
      "base_of (c', s') = base_of (c, s)" "c' = c\<lparr>Actions := Actions c'\<rparr>"
      using primitive_step[OF inv' True, of e] by blast
    have r: "Resolution c' = Resolution c" "Base c' = Base c"
      by (subst *(5), simp)+
    from True have nr: "k \<noteq> Call_Reset" "\<And>b. k \<noteq> Set_KeepCaller b" by auto
    show ?thesis using * r nr True by (auto simp: st)
  next
    case False
    then consider "k = Call_Reset" | b where "k = Set_KeepCaller b"
      by (cases k) auto
    then show ?thesis
    proof cases
      case 1
      show ?thesis using Canvas_Reset_inv[OF inv'] Canvas_Reset_step[OF inv']
        by (simp add: 1 st)
    next
      case 2
      have "canvas_inv (c\<lparr>KeepCaller := b\<rparr>, s)"
        using inv' by (simp add: canvas_inv_def)
      then show ?thesis
        by (simp add: 2 st log_of_def base_of_def log_refs_def base_refs_def)
    qed
  qed
qed

lemma run_inv:
  assumes "canvas_inv st"
  shows "\<exists>st'. run ks st = Some st' \<and> canvas_inv st' \<and> base_of st' = base_of st
           \<and> Resolution (fst st') = Resolution (fst st) \<and> Base (fst st') = Base (fst st)"
  using assms
proof (induction ks arbitrary: st)
  case Nil
  then show ?case by simp
next
  case (Cons ek ks)
  obtain e k where ek: "ek = (e, k)" by (cases ek)
  obtain st1 where s1: "exec e k st = Some st1" "canvas_inv st1" "base_of st1 = base_of st"
    "Resolution (fst st1) = Resolution (fst st)" "Base (fst st1) = Base (fst st)"
    using exec_step[OF Cons.prems, of e k] by blast
  from Cons.IH[OF s1(2)] show ?case using s1 by (auto simp: ek)
qed

lemma go_append_nil:
  assumes "go_append z sp arrs nil_slice xs = (arrs', sl')"
  shows "slice_view arrs' sl' = copy_view xs"
    and "slice_elems arrs' sl' = xs"
    and "a < length arrs \<Longrightarrow> slice_view (arrs'[a := ys]) sl' = copy_view xs"
    and "a < length arrs \<Longrightarrow> slice_elems (arrs'[a := ys]) sl' = xs"
  using assms
  by (auto simp: go_append_def nil_slice_def slice_view_def slice_elems_def copy_view_def
      arr_at_def nth_append nth_list_update split: if_splits)

lemmas test_defs = test_env_def test_base_def test_path_def test_store_def test_calls_def

lemmas exec_defs = Canvas_SetLineWidth_def Canvas_SetLineDash_def Canvas_SetColor_def
        Canvas_Rotate_def Canvas_Translate_def Canvas_Scale_def Canvas_Push_def Canvas_Pop_def
        Canvas_Stroke_def Canvas_Fill_def Canvas_FillString_def Canvas_DPI_def new_obj_def
        Canvas_append_def Canvas_Reset_def go_append_def go_copy_def go_slice_to_def
        slice_elems_def arr_at_def New_def nil_slice_def

section \<open>Renderings and copies\<close>

lemma Canvas_append_frame:
  "fst (Canvas_append e r (c, s)) = c\<lparr>Actions := Actions (fst (Canvas_append e r (c, s)))\<rparr>"
  by (simp add: Canvas_append_def Let_def split: prod.splits)

lemma go_store_elems:
  assumes "slice_ok arrs b" and "i < sl_len b"
  shows "\<exists>arrs'. go_store arrs b i v = Some arrs'
           \<and> slice_elems arrs' b = (slice_elems arrs b)[i := v]"
proof -
  obtain a where a: "sl_ptr b = Some a" using assms
    by (cases "sl_ptr b") (auto simp: slice_ok_def)
  have al: "a < length arrs" using assms a by (simp add: slice_ok_def)
  show ?thesis using assms a al
    by (simp add: go_store_def slice_elems_def arr_at_def drop_update_swap take_update_swap)
qed

lemma go_store_other:
  assumes okb: "slice_ok arrs b" and i: "i < sl_len b"
    and st: "go_store arrs b i v = Some arrs'"
    and al: "sl_ptr A = sl_ptr b \<longrightarrow> sl_off A = sl_off b"
  shows "slice_elems arrs' A
       = (if sl_ptr A = sl_ptr b then (slice_elems arrs A)[i := v] else slice_elems arrs A)"
proof -
  obtain a where a: "sl_ptr b = Some a" using okb i
    by (cases "sl_ptr b") (auto simp: slice_ok_def)
  have al': "a < length arrs" using okb a by (simp add: slice_ok_def)
  have eq: "arrs' = arrs[a := (arrs ! a)[sl_off b + i := v]]"
    using st i a al' by (simp add: go_store_def arr_at_def)
  show ?thesis
  proof (cases "sl_ptr A")
    case None
    then show ?thesis using a by (simp add: slice_elems_def)
  next
    case (Some a')
    show ?thesis
    proof (cases "a' = a")
      case True
      then show ?thesis using Some a al al' unfolding eq
        by (simp add: slice_elems_def arr_at_def drop_update_swap take_update_swap)
    next
      case False
      then show ?thesis using Some a unfolding eq
        by (simp add: slice_elems_def arr_at_def)
    qed
  qed
qed

lemma callRecorder_String_stamp:
  "callRecorder_String (if keep then caller e zero_cr else zero_cr)
     = (if keep \<and> caller_ok e then caller_file e @ '':'' @ show_int (caller_line e) @ '' ''
        else [])"
  by (simp add: callRecorder_String_def caller_def zero_cr_def)

lemma VgCall_literal:
  assumes l: "literal e k s = Some (a, s1)" and p: "prints_cr k"
    and s': "len_arrs s' = len_arrs s1" "path_arrs s' = path_arrs s1"
  shows "VgCall F s' (stamped keep e a)
       = (if keep \<and> caller_ok e then caller_file e @ '':'' @ show_int (caller_line e) @ '' ''
          else []) @ call_text F s k"
proof (cases k)
  case (Call_SetLineDash dashes offs)
  obtain arrs ds where g: "go_append 0 (copy_spare e) (len_arrs s) nil_slice
      (slice_elems (len_arrs s) dashes) = (arrs, ds)"
    by (cases "go_append (0::'a) (copy_spare e) (len_arrs s) nil_slice
      (slice_elems (len_arrs s) dashes)")
  have a: "a = SetLineDash ds offs zero_cr" "s1 = s\<lparr>len_arrs := arrs\<rparr>"
    using l g by (auto simp: Call_SetLineDash)
  have v: "slice_view (len_arrs s') ds = copy_view (slice_elems (len_arrs s) dashes)"
    using go_append_nil(1)[OF g] s' a by simp
  show ?thesis
    using callRecorder_String_stamp[of keep e]
    by (simp add: Call_SetLineDash a v stamped_def call_text_def SetLineDash_VgCall_def
        split: if_splits)
next
  case (Call_Stroke path)
  obtain arrs ds where g: "go_append 0 (copy_spare e) (path_arrs s) nil_slice
      (slice_elems (path_arrs s) path) = (arrs, ds)"
    by (cases "go_append (0::'c) (copy_spare e) (path_arrs s) nil_slice
      (slice_elems (path_arrs s) path)")
  have a: "a = Stroke ds zero_cr" "s1 = s\<lparr>path_arrs := arrs\<rparr>"
    using l g by (auto simp: Call_Stroke)
  have v: "slice_view (path_arrs s') ds = copy_view (slice_elems (path_arrs s) path)"
    using go_append_nil(1)[OF g] s' a by simp
  show ?thesis
    using callRecorder_String_stamp[of keep e]
    by (simp add: Call_Stroke a v stamped_def call_text_def Stroke_VgCall_def split: if_splits)
next
  case (Call_Fill path)
  obtain arrs ds where g: "go_append 0 (copy_spare e) (path_arrs s) nil_slice
      (slice_elems (path_arrs s) path) = (arrs, ds)"
    by (cases "go_append (0::'c) (copy_spare e) (path_arrs s) nil_slice
      (slice_elems (path_arrs s) path)")
  have a: "a = Fill ds zero_cr" "s1 = s\<lparr>path_arrs := arrs\<rparr>"
    using l g by (auto simp: Call_Fill)
  have v: "slice_view (path_arrs s') ds = copy_view (slice_elems (path_arrs s) path)"
    using go_append_nil(1)[OF g] s' a by simp
  show ?thesis
    using callRecorder_String_stamp[of keep e]
    by (simp add: Call_Fill a v stamped_def call_text_def Fill_VgCall_def split: if_splits)
qed (use l p callRecorder_String_stamp[of keep e] in
      \<open>auto simp: stamped_def call_text_def SetWidth_VgCall_def SetColor_VgCall_def
         Rotate_VgCall_def Translate_VgCall_def Scale_VgCall_def FillString_VgCall_def
         split: if_splits\<close>)

text \<open>
  The nine primitives whose record prints \<^verbatim>\<open>a.cr\<close>: the appended record renders as the
  name and the arguments of the call, behind the file and the line \<^verbatim>\<open>runtime.Caller(3)\<close>
  answered when the flag is on and the frame was found, behind nothing otherwise. An
  assignment to the flag changes the flag only.
\<close>

lemma stamped_rendering:
  assumes "canvas_inv st" and "prints_cr k"
  shows "\<exists>st' a. exec e k st = Some st' \<and> log_of st' = log_of st @ [Some a]
           \<and> VgCall F (snd st') a
               = (if KeepCaller (fst st) \<and> caller_ok e
                  then caller_file e @ '':'' @ show_int (caller_line e) @ '' '' else [])
                 @ call_text F (snd st) k
           \<and> (\<forall>v. \<exists>st2. exec e (Set_KeepCaller v) st = Some st2 \<and> KeepCaller (fst st2) = v
                  \<and> snd st2 = snd st \<and> log_of st2 = log_of st)"
proof -
  obtain c s where st: "st = (c, s)" by (cases st)
  have prim: "is_primitive k" using assms(2) by (cases k) auto
  obtain a s1 c' s' where *: "literal e k s = Some (a, s1)" "exec e k (c, s) = Some (c', s')"
      "log_of (c', s') = log_of (c, s) @ [Some (stamped (KeepCaller c) e a)]"
      "len_arrs s' = len_arrs s1" "path_arrs s' = path_arrs s1"
    using primitive_step[OF assms(1)[unfolded st] prim, of e] by blast
  note v = VgCall_literal[OF *(1) assms(2) *(4,5), of F "KeepCaller c"]
  have t: "\<exists>st2. exec e (Set_KeepCaller v) (c, s) = Some st2 \<and> KeepCaller (fst st2) = v
                  \<and> snd st2 = s \<and> log_of st2 = log_of (c, s)" for v
    by (simp add: log_of_def log_refs_def)
  show ?thesis using * v t by (simp add: st)
qed

lemma SetLineDash_copy:
  fixes st :: "('f::zero, 'c, 'p::zero) state"
  assumes inv: "canvas_inv st"
  shows "\<exists>ds cr. last (log_of (Canvas_SetLineDash e dashes offs st)) = Some (SetLineDash ds offs cr)
           \<and> slice_elems (len_arrs (snd (Canvas_SetLineDash e dashes offs st))) ds
               = slice_elems (len_arrs (snd st)) dashes
           \<and> (\<forall>a ys. a < length (len_arrs (snd st)) \<longrightarrow>
                 slice_elems (len_arrs (overwrite_lengths
                     (snd (Canvas_SetLineDash e dashes offs st)) a ys)) ds
                   = slice_elems (len_arrs (snd st)) dashes
                 \<and> VgCall F (overwrite_lengths (snd (Canvas_SetLineDash e dashes offs st)) a ys)
                     (SetLineDash ds offs cr)
                   = VgCall F (snd (Canvas_SetLineDash e dashes offs st))
                     (SetLineDash ds offs cr))"
proof -
  obtain c s where st: "st = (c, s)" by (cases st)
  let ?k = "Call_SetLineDash dashes offs :: ('f, 'c) call"
  have prim: "is_primitive ?k" by simp
  obtain a s1 c' s' where *: "literal e ?k s = Some (a, s1)" "exec e ?k (c, s) = Some (c', s')"
      "log_of (c', s') = log_of (c, s) @ [Some (stamped (KeepCaller c) e a)]"
      "len_arrs s' = len_arrs s1"
    using primitive_step[OF inv[unfolded st] prim, of e] by blast
  obtain arrs ds where g: "go_append 0 (copy_spare e) (len_arrs s) nil_slice
      (slice_elems (len_arrs s) dashes) = (arrs, ds)"
    by (cases "go_append (0::'f) (copy_spare e) (len_arrs s) nil_slice
      (slice_elems (len_arrs s) dashes)")
  have a: "a = SetLineDash ds offs zero_cr" "len_arrs s' = arrs"
    using *(1,4) g by auto
  have r: "Canvas_SetLineDash e dashes offs st = (c', s')" using *(2) by (simp add: st)
  have l: "last (log_of (c', s'))
      = Some (SetLineDash ds offs (if KeepCaller c then caller e zero_cr else zero_cr))"
    using *(3) by (simp add: a stamped_def)
  show ?thesis unfolding r using l go_append_nil[OF g]
    by (auto simp: a st overwrite_lengths_def)
qed

lemma Stroke_copy:
  fixes st :: "('f::zero, 'c, 'p::zero) state"
  assumes inv: "canvas_inv st"
  shows "\<exists>p cr. last (log_of (Canvas_Stroke e path st)) = Some (Stroke p cr)
           \<and> slice_elems (path_arrs (snd (Canvas_Stroke e path st))) p
               = slice_elems (path_arrs (snd st)) path
           \<and> (\<forall>a ys. a < length (path_arrs (snd st)) \<longrightarrow>
                 slice_elems (path_arrs (overwrite_path (snd (Canvas_Stroke e path st)) a ys)) p
                   = slice_elems (path_arrs (snd st)) path
                 \<and> VgCall F (overwrite_path (snd (Canvas_Stroke e path st)) a ys) (Stroke p cr)
                   = VgCall F (snd (Canvas_Stroke e path st)) (Stroke p cr))"
proof -
  obtain c s where st: "st = (c, s)" by (cases st)
  let ?k = "Call_Stroke path :: ('f, 'c) call"
  have prim: "is_primitive ?k" by simp
  obtain a s1 c' s' where *: "literal e ?k s = Some (a, s1)" "exec e ?k (c, s) = Some (c', s')"
      "log_of (c', s') = log_of (c, s) @ [Some (stamped (KeepCaller c) e a)]"
      "path_arrs s' = path_arrs s1"
    using primitive_step[OF inv[unfolded st] prim, of e] by blast
  obtain arrs ds where g: "go_append 0 (copy_spare e) (path_arrs s) nil_slice
      (slice_elems (path_arrs s) path) = (arrs, ds)"
    by (cases "go_append (0::'p) (copy_spare e) (path_arrs s) nil_slice
      (slice_elems (path_arrs s) path)")
  have a: "a = Stroke ds zero_cr" "path_arrs s' = arrs"
    using *(1,4) g by auto
  have r: "Canvas_Stroke e path st = (c', s')" using *(2) by (simp add: st)
  have l: "last (log_of (c', s'))
      = Some (Stroke ds (if KeepCaller c then caller e zero_cr else zero_cr))"
    using *(3) by (simp add: a stamped_def)
  show ?thesis unfolding r using l go_append_nil[OF g]
    by (auto simp: a st overwrite_path_def)
qed

lemma Fill_copy:
  fixes st :: "('f::zero, 'c, 'p::zero) state"
  assumes inv: "canvas_inv st"
  shows "\<exists>p cr. last (log_of (Canvas_Fill e path st)) = Some (Fill p cr)
           \<and> slice_elems (path_arrs (snd (Canvas_Fill e path st))) p
               = slice_elems (path_arrs (snd st)) path
           \<and> (\<forall>a ys. a < length (path_arrs (snd st)) \<longrightarrow>
                 slice_elems (path_arrs (overwrite_path (snd (Canvas_Fill e path st)) a ys)) p
                   = slice_elems (path_arrs (snd st)) path
                 \<and> VgCall F (overwrite_path (snd (Canvas_Fill e path st)) a ys) (Fill p cr)
                   = VgCall F (snd (Canvas_Fill e path st)) (Fill p cr))"
proof -
  obtain c s where st: "st = (c, s)" by (cases st)
  let ?k = "Call_Fill path :: ('f, 'c) call"
  have prim: "is_primitive ?k" by simp
  obtain a s1 c' s' where *: "literal e ?k s = Some (a, s1)" "exec e ?k (c, s) = Some (c', s')"
      "log_of (c', s') = log_of (c, s) @ [Some (stamped (KeepCaller c) e a)]"
      "path_arrs s' = path_arrs s1"
    using primitive_step[OF inv[unfolded st] prim, of e] by blast
  obtain arrs ds where g: "go_append 0 (copy_spare e) (path_arrs s) nil_slice
      (slice_elems (path_arrs s) path) = (arrs, ds)"
    by (cases "go_append (0::'p) (copy_spare e) (path_arrs s) nil_slice
      (slice_elems (path_arrs s) path)")
  have a: "a = Fill ds zero_cr" "path_arrs s' = arrs"
    using *(1,4) g by auto
  have r: "Canvas_Fill e path st = (c', s')" using *(2) by (simp add: st)
  have l: "last (log_of (c', s'))
      = Some (Fill ds (if KeepCaller c then caller e zero_cr else zero_cr))"
    using *(3) by (simp add: a stamped_def)
  show ?thesis unfolding r using l go_append_nil[OF g]
    by (auto simp: a st overwrite_path_def)
qed

lemma deref_overwrite_font: "deref (overwrite_font s p font) = deref s"
  by (rule ext) (simp add: deref_def overwrite_font_def split: option.splits)

lemma log_of_overwrite_font [simp]: "log_of (c, overwrite_font s p font) = log_of (c, s)"
  by (simp add: log_of_def log_refs_def deref_overwrite_font) (simp add: overwrite_font_def)

section \<open>The test of the package\<close>

text \<open>
  \<^verbatim>\<open>TestRecorder\<close> in the model: the state it ends in, and the four renderings it compares
  with its expected suffixes. Only the \<^verbatim>\<open>Stroke\<close> record, appended after the flag was set,
  carries the file and the line.
\<close>

lemma TestRecorder_run:
  "run test_calls (New 72 test_base, test_store)
     = Some (\<lparr>Resolution = 72, Base = test_base,
               Actions = \<lparr>sl_ptr = Some 2, sl_off = 0, sl_len = 4, sl_cap = 5\<rparr>,
               KeepCaller = True\<rparr>,
             test_store\<lparr>act_arrs := [[Some 0], [Some 0, Some 1, Some 2],
                                        [Some 0, Some 1, Some 2, Some 3, None]],
                         path_arrs := [[1], [1]],
                         objs := [FillString ''Foo'' 12 0 10 ''Bar'' zero_cr,
                                  Scale 1 2 zero_cr, Rotate 0.72 zero_cr,
                                  Stroke \<lparr>sl_ptr = Some 1, sl_off = 0, sl_len = 1, sl_cap = 1\<rparr>
                                    \<lparr>haveCaller = True, cr_file = ''recorder_test.go'',
                                     cr_line = 20\<rparr>]\<rparr>)"
  by (simp add: test_defs exec_defs Let_def caller_def zero_cr_def)

lemma TestRecorder_renderings:
  "\<exists>st. run test_calls (New 72 test_base, test_store) = Some st
     \<and> map (map_option (VgCall F (snd st))) (log_of st)
     = [Some (''FillString('' @ fmt_q F ''Foo'' @ '', '' @ fmt_v_Length F 12 @ '', ''
                @ fmt_v_Length F 0 @ '', '' @ fmt_v_Length F 10 @ '', '' @ fmt_q F ''Bar'' @ '')''),
        Some (''Scale('' @ fmt_v_float64 F 1 @ '', '' @ fmt_v_float64 F 2 @ '')''),
        Some (''Rotate('' @ fmt_v_float64 F 0.72 @ '')''),
        Some (''recorder_test.go:20 Stroke('' @ fmt_sharpv_Path F (Some [1]) @ '')'')]"
  unfolding TestRecorder_run
  by (auto simp: log_of_def log_refs_def slice_elems_def arr_at_def deref_def test_store_def
      zero_cr_def FillString_VgCall_def Scale_VgCall_def Rotate_VgCall_def Stroke_VgCall_def
      callRecorder_String_def slice_view_def show_int_def show_nat.simps)

section \<open>Renderings of Push, Pop and DPI\<close>

text \<open>
  C1. A rendering is to have the shape \<^verbatim>\<open><prefix><Name>(<args>)\<close>, so that a \<^verbatim>\<open>Push\<close>, \<^verbatim>\<open>Pop\<close> or
  \<^verbatim>\<open>DPI\<close> record without a stamp renders as \<^verbatim>\<open>Push()\<close>, \<^verbatim>\<open>Pop()\<close> or \<^verbatim>\<open>DPI()\<close>. The three
  methods print the record pointer where the others print \<^verbatim>\<open>a.cr\<close>: a record with the zero
  stamp renders with the dump of its fields in front of the name, and no record of the
  three renders as its stamp text followed by the name and the parentheses.
\<close>

theorem Push_Pop_DPI_rendering:
  "Push_VgCall zero_cr = ''&{{%!s(bool=false)  %!s(int=0)}}Push()''
   \<and> Pop_VgCall zero_cr = ''&{{%!s(bool=false)  %!s(int=0)}}Pop()''
   \<and> DPI_VgCall zero_cr = ''&{{%!s(bool=false)  %!s(int=0)}}DPI()''
   \<and> VgCall F s (Push cr) \<noteq> callRecorder_String cr @ ''Push()''
   \<and> VgCall F s (Pop cr) \<noteq> callRecorder_String cr @ ''Pop()''
   \<and> VgCall F s (DPI cr) \<noteq> callRecorder_String cr @ ''DPI()''"
proof -
  have l: "length (fmt_s_record_ptr cr) > length (callRecorder_String cr)"
    by (simp add: fmt_s_record_ptr_def callRecorder_String_def)
  have n: "fmt_s_record_ptr cr @ t \<noteq> callRecorder_String cr @ t" for t
    using l by auto
  show ?thesis using n
    by (simp add: Push_VgCall_def Pop_VgCall_def DPI_VgCall_def)
       (simp add: fmt_s_record_ptr_def zero_cr_def show_int_def show_nat.simps)
qed

section \<open>Construction shares the baseline\<close>

text \<open>
  C2, as amended. For every resolution and every baseline slice, \<^verbatim>\<open>New\<close> stores the
  resolution, and stores the caller's baseline slice itself, uncopied, as both \<^verbatim>\<open>Base\<close> and
  the first \<^verbatim>\<open>Actions\<close>: baseline and log read the elements of that slice. The canvas
  shares the caller's array. Right after construction or after any calls, an assignment
  the caller makes to an element of their slice is read through the baseline; it is read
  through the log as well while the log is still in the caller's array, and it leaves the
  log as it was once an append has moved the log to an array of its own.
\<close>

theorem New_shares_baseline:
  fixes s0 :: "('f::zero, 'c, 'p::zero) store"
  assumes "slice_ok (act_arrs s0) b" and "refs_ok s0 (slice_elems (act_arrs s0) b)"
  shows "Resolution (New d b) = d \<and> Base (New d b) = b \<and> Actions (New d b) = b
       \<and> base_refs (New d b, s0) = slice_elems (act_arrs s0) b
       \<and> log_refs (New d b, s0) = slice_elems (act_arrs s0) b
       \<and> (\<forall>ks st i v. run ks (New d b, s0) = Some st \<and> i < sl_len b \<longrightarrow>
             (\<exists>arrs'. go_store (act_arrs (snd st)) b i v = Some arrs'
                \<and> base_refs (fst st, (snd st)\<lparr>act_arrs := arrs'\<rparr>) = (base_refs st)[i := v]
                \<and> log_refs (fst st, (snd st)\<lparr>act_arrs := arrs'\<rparr>)
                    = (if sl_ptr (Actions (fst st)) = sl_ptr b then (log_refs st)[i := v]
                       else log_refs st)))"
proof -
  have i0: "canvas_inv (New d b, s0)" using assms by (rule New_inv)
  have later: "\<exists>arrs'. go_store (act_arrs (snd st)) b i v = Some arrs'
                \<and> base_refs (fst st, (snd st)\<lparr>act_arrs := arrs'\<rparr>) = (base_refs st)[i := v]
                \<and> log_refs (fst st, (snd st)\<lparr>act_arrs := arrs'\<rparr>)
                    = (if sl_ptr (Actions (fst st)) = sl_ptr b then (log_refs st)[i := v]
                       else log_refs st)"
    if r: "run ks (New d b, s0) = Some st" and i: "i < sl_len b" for ks st i v
  proof -
    have inv: "canvas_inv st" and B: "Base (fst st) = b"
      using run_inv[OF i0, of ks] r by (auto simp: New_def)
    obtain c s where st: "st = (c, s)" by (cases st)
    have okB: "slice_ok (act_arrs s) b"
      and al: "sl_ptr (Actions c) = sl_ptr b \<longrightarrow> sl_off (Actions c) = sl_off b"
      using inv B by (auto simp: canvas_inv_def st)
    obtain arrs' where w: "go_store (act_arrs s) b i v = Some arrs'"
      using go_store_elems[OF okB i, of v] by blast
    have "sl_ptr b = sl_ptr b \<longrightarrow> sl_off b = sl_off b" by simp
    note rb = go_store_other[OF okB i w this]
    note rl = go_store_other[OF okB i w al]
    show ?thesis using w rb rl B by (simp add: st base_refs_def log_refs_def)
  qed
  have now: "Resolution (New d b) = d \<and> Base (New d b) = b \<and> Actions (New d b) = b
       \<and> base_refs (New d b, s0) = slice_elems (act_arrs s0) b
       \<and> log_refs (New d b, s0) = slice_elems (act_arrs s0) b"
    by (simp add: New_def base_refs_def log_refs_def)
  show ?thesis using now later by blast
qed

theorem New_shares_baseline_witness:
  "slice_ok (act_arrs test_store) test_base
   \<and> refs_ok test_store (slice_elems (act_arrs test_store) test_base)
   \<and> go_store (act_arrs test_store) test_base 0 None = Some [[None]]
   \<and> base_refs (New (72 :: real) test_base, test_store\<lparr>act_arrs := [[None]]\<rparr>) = [None]
   \<and> log_refs (New (72 :: real) test_base, test_store\<lparr>act_arrs := [[None]]\<rparr>) = [None]
   \<and> run [(test_env, Call_Push)] (New 72 test_base, test_store)
       = Some (\<lparr>Resolution = 72, Base = test_base,
                 Actions = \<lparr>sl_ptr = Some 1, sl_off = 0, sl_len = 2, sl_cap = 3\<rparr>,
                 KeepCaller = False\<rparr>,
               test_store\<lparr>act_arrs := [[Some 0], [Some 0, Some 1, None]],
                           objs := objs test_store @ [Push zero_cr]\<rparr>)
   \<and> go_store [[Some 0], [Some 0, Some 1, None]] test_base 0 None
       = Some [[None], [Some 0, Some 1, None]]
   \<and> base_refs (\<lparr>Resolution = 72 :: real, Base = test_base,
                 Actions = \<lparr>sl_ptr = Some 1, sl_off = 0, sl_len = 2, sl_cap = 3\<rparr>,
                 KeepCaller = False\<rparr>,
               test_store\<lparr>act_arrs := [[Some 0], [Some 0, Some 1, None]],
                           objs := objs test_store @ [Push zero_cr],
                           act_arrs := [[None], [Some 0, Some 1, None]]\<rparr>) = [None]
   \<and> log_refs (\<lparr>Resolution = 72 :: real, Base = test_base,
                 Actions = \<lparr>sl_ptr = Some 1, sl_off = 0, sl_len = 2, sl_cap = 3\<rparr>,
                 KeepCaller = False\<rparr>,
               test_store\<lparr>act_arrs := [[Some 0], [Some 0, Some 1, None]],
                           objs := objs test_store @ [Push zero_cr],
                           act_arrs := [[None], [Some 0, Some 1, None]]\<rparr>) = [Some 0, Some 1]
   \<and> slice_ok (act_arrs (empty_store :: (real, nat, nat) store)) nil_slice
   \<and> refs_ok (empty_store :: (real, nat, nat) store)
         (slice_elems (act_arrs (empty_store :: (real, nat, nat) store)) nil_slice)
   \<and> Base (New (72 :: real) nil_slice) = nil_slice
   \<and> base_refs (New (72 :: real) nil_slice, empty_store :: (real, nat, nat) store) = []
   \<and> log_refs (New (72 :: real) nil_slice, empty_store :: (real, nat, nat) store) = []"
proof -
  have h1: "slice_ok (act_arrs test_store) test_base"
    by (simp add: test_defs slice_ok_def)
  have h2: "refs_ok test_store (slice_elems (act_arrs test_store) test_base)"
    by (simp add: test_defs refs_ok_def slice_elems_def arr_at_def)
  have i: "0 < sl_len test_base" by (simp add: test_defs)
  have r0: "run [] (New (72 :: real) test_base, test_store) = Some (New 72 test_base, test_store)"
    by simp
  have r1: "run [(test_env, Call_Push)] (New 72 test_base, test_store)
       = Some (\<lparr>Resolution = 72, Base = test_base,
                 Actions = \<lparr>sl_ptr = Some 1, sl_off = 0, sl_len = 2, sl_cap = 3\<rparr>,
                 KeepCaller = False\<rparr>,
               test_store\<lparr>act_arrs := [[Some 0], [Some 0, Some 1, None]],
                           objs := objs test_store @ [Push zero_cr]\<rparr>)"
    by (simp add: test_defs exec_defs Let_def)
  have g0: "go_store (act_arrs test_store) test_base 0 None = Some [[None]]"
    by (simp add: test_defs go_store_def arr_at_def)
  have g1: "go_store [[Some 0], [Some 0, Some 1, None]] test_base 0 None
       = Some [[None], [Some 0, Some 1, None]]"
    by (simp add: test_defs go_store_def arr_at_def)
  have e0: "slice_elems (act_arrs test_store) test_base = [Some 0]"
    by (simp add: test_defs slice_elems_def arr_at_def)
  note T = New_shares_baseline[OF h1 h2, of "72 :: real"]
  have T0: "\<exists>arrs'. go_store (act_arrs test_store) test_base 0 None = Some arrs'
      \<and> base_refs (New (72 :: real) test_base, test_store\<lparr>act_arrs := arrs'\<rparr>)
          = (base_refs (New (72 :: real) test_base, test_store))[0 := None]
      \<and> log_refs (New (72 :: real) test_base, test_store\<lparr>act_arrs := arrs'\<rparr>)
          = (if sl_ptr (Actions (New (72 :: real) test_base)) = sl_ptr test_base
             then (log_refs (New (72 :: real) test_base, test_store))[0 := None]
             else log_refs (New (72 :: real) test_base, test_store))"
    using T r0 i by (metis fst_conv snd_conv)
  have a0: "base_refs (New (72 :: real) test_base, test_store\<lparr>act_arrs := [[None]]\<rparr>) = [None]"
       "log_refs (New (72 :: real) test_base, test_store\<lparr>act_arrs := [[None]]\<rparr>) = [None]"
    using T0 g0 e0 T by (simp_all add: New_def)
  let ?c1 = "\<lparr>Resolution = 72 :: real, Base = test_base,
                 Actions = \<lparr>sl_ptr = Some 1, sl_off = 0, sl_len = 2, sl_cap = 3\<rparr>,
                 KeepCaller = False\<rparr>"
  let ?s1 = "test_store\<lparr>act_arrs := [[Some 0], [Some 0, Some 1, None]],
                           objs := objs test_store @ [Push zero_cr]\<rparr>"
  have T1: "\<exists>arrs'. go_store (act_arrs ?s1) test_base 0 None = Some arrs'
      \<and> base_refs (?c1, ?s1\<lparr>act_arrs := arrs'\<rparr>) = (base_refs (?c1, ?s1))[0 := None]
      \<and> log_refs (?c1, ?s1\<lparr>act_arrs := arrs'\<rparr>)
          = (if sl_ptr (Actions ?c1) = sl_ptr test_base
             then (log_refs (?c1, ?s1))[0 := None] else log_refs (?c1, ?s1))"
    using T r1 i by (metis fst_conv snd_conv)
  have b1: "base_refs (?c1, ?s1) = [Some 0]" "log_refs (?c1, ?s1) = [Some 0, Some 1]"
    by (simp_all add: base_refs_def log_refs_def slice_elems_def arr_at_def test_defs)
  have a1: "base_refs (?c1, ?s1\<lparr>act_arrs := [[None], [Some 0, Some 1, None]]\<rparr>) = [None]"
       "log_refs (?c1, ?s1\<lparr>act_arrs := [[None], [Some 0, Some 1, None]]\<rparr>) = [Some 0, Some 1]"
  proof -
    from T1 obtain arrs' where w: "go_store (act_arrs ?s1) test_base 0 None = Some arrs'"
      and wb: "base_refs (?c1, ?s1\<lparr>act_arrs := arrs'\<rparr>) = (base_refs (?c1, ?s1))[0 := None]"
      and wl: "log_refs (?c1, ?s1\<lparr>act_arrs := arrs'\<rparr>)
          = (if sl_ptr (Actions ?c1) = sl_ptr test_base
             then (log_refs (?c1, ?s1))[0 := None] else log_refs (?c1, ?s1))"
      by blast
    have eq: "arrs' = [[None], [Some 0, Some 1, None]]"
      using w by (simp add: test_defs go_store_def arr_at_def)
    show "base_refs (?c1, ?s1\<lparr>act_arrs := [[None], [Some 0, Some 1, None]]\<rparr>) = [None]"
      using wb b1(1) unfolding eq by simp
    show "log_refs (?c1, ?s1\<lparr>act_arrs := [[None], [Some 0, Some 1, None]]\<rparr>) = [Some 0, Some 1]"
      using wl b1(2) unfolding eq by (simp add: test_base_def)
  qed
  have n1: "slice_ok (act_arrs (empty_store :: (real, nat, nat) store)) nil_slice"
    by (simp add: slice_ok_def nil_slice_def)
  have n2: "refs_ok (empty_store :: (real, nat, nat) store)
         (slice_elems (act_arrs (empty_store :: (real, nat, nat) store)) nil_slice)"
    by (simp add: refs_ok_def slice_elems_def nil_slice_def)
  note N = New_shares_baseline[OF n1 n2, of "72 :: real"]
  have n3: "Base (New (72 :: real) nil_slice) = nil_slice"
    "base_refs (New (72 :: real) nil_slice, empty_store :: (real, nat, nat) store) = []"
    "log_refs (New (72 :: real) nil_slice, empty_store :: (real, nat, nat) store) = []"
    using N by (simp_all add: slice_elems_def nil_slice_def)
  show ?thesis by (intro conjI h1 h2 g0 a0 r1 g1 a1 n1 n2 n3)
qed

text \<open>The baseline of the test, and the caller then setting \<^verbatim>\<open>base[0] = nil\<close>: the baseline
  and the log of the canvas read nil.\<close>

theorem New_defensive_copy_counterexample:
  "go_store (act_arrs test_store) test_base 0 None = Some [[None]]
   \<and> base_of (New 72 test_base, test_store)
       = [Some (FillString ''Foo'' 12 0 10 ''Bar'' zero_cr)]
   \<and> base_of (New 72 test_base, test_store\<lparr>act_arrs := [[None]]\<rparr>) = [None]
   \<and> log_of (New 72 test_base, test_store\<lparr>act_arrs := [[None]]\<rparr>) = [None]"
  by (simp add: test_defs go_store_def arr_at_def base_of_def base_refs_def log_of_def
      log_refs_def New_def slice_elems_def deref_def)

section \<open>The baseline is a prefix of the log\<close>

text \<open>
  C3. From a canvas made by \<^verbatim>\<open>New\<close> on a well-formed baseline, every sequence of
  primitive calls, DPI queries, resets and assignments to \<^verbatim>\<open>KeepCaller\<close> runs to a state in
  which the first \<open>len(base)\<close> elements of the log are the baseline, element for element,
  the baseline being what it was at construction. From such a state a primitive call
  appends one record to the log, \<^verbatim>\<open>Reset\<close> makes the log the baseline, and an assignment
  to the flag leaves the log as it is.
\<close>

theorem baseline_prefix_invariant:
  assumes "slice_ok (act_arrs s0) b" and "refs_ok s0 (slice_elems (act_arrs s0) b)"
  shows "\<exists>st. run ks (New d b, s0) = Some st
           \<and> take (sl_len (Base (fst st))) (log_of st) = base_of st
           \<and> length (base_of st) = sl_len (Base (fst st))
           \<and> base_of st = base_of (New d b, s0)
           \<and> (\<forall>e k. \<exists>st'. exec e k st = Some st'
                 \<and> (is_primitive k \<longrightarrow> (\<exists>a. log_of st' = log_of st @ [Some a]))
                 \<and> (k = Call_Reset \<longrightarrow> log_of st' = base_of st)
                 \<and> (\<forall>v. k = Set_KeepCaller v \<longrightarrow> log_of st' = log_of st))"
proof -
  have i0: "canvas_inv (New d b, s0)" using assms by (rule New_inv)
  obtain st where st: "run ks (New d b, s0) = Some st" "canvas_inv st"
      "base_of st = base_of (New d b, s0)"
    using run_inv[OF i0, of ks] by blast
  have "\<exists>st'. exec e k st = Some st'
                 \<and> (is_primitive k \<longrightarrow> (\<exists>a. log_of st' = log_of st @ [Some a]))
                 \<and> (k = Call_Reset \<longrightarrow> log_of st' = base_of st)
                 \<and> (\<forall>v. k = Set_KeepCaller v \<longrightarrow> log_of st' = log_of st)" for e k
    using exec_step[OF st(2), of e k] by blast
  then show ?thesis using st inv_prefix[OF st(2)] by blast
qed

theorem baseline_prefix_invariant_witness:
  "slice_ok (act_arrs test_store) test_base
   \<and> refs_ok test_store (slice_elems (act_arrs test_store) test_base)
   \<and> (\<exists>st. run test_calls (New 72 test_base, test_store) = Some st
          \<and> take (sl_len (Base (fst st))) (log_of st) = base_of st
          \<and> base_of st = [Some (FillString ''Foo'' 12 0 10 ''Bar'' zero_cr)])"
proof -
  have h1: "slice_ok (act_arrs test_store) test_base"
    by (simp add: test_defs slice_ok_def)
  have h2: "refs_ok test_store (slice_elems (act_arrs test_store) test_base)"
    by (simp add: test_defs refs_ok_def slice_elems_def arr_at_def)
  have b: "base_of (New 72 test_base, test_store) = [Some (FillString ''Foo'' 12 0 10 ''Bar'' zero_cr)]"
    by (simp add: test_defs base_of_def base_refs_def New_def slice_elems_def arr_at_def deref_def)
  from baseline_prefix_invariant[OF h1 h2, of test_calls 72] b
  show ?thesis using h1 h2 by auto
qed

section \<open>One append for each primitive\<close>

text \<open>
  C4. Each primitive call is to make the log one record longer, the new last record
  rendering as section 4.2 says. On a new canvas with an empty baseline and the flag off,
  \<^verbatim>\<open>Push\<close> makes the log the one \<^verbatim>\<open>Push\<close> record with the zero stamp, and that record does
  not render as \<^verbatim>\<open>Push()\<close> but with the dump of its fields in front.
\<close>

theorem Push_appends_misrendered_record:
  "log_of (Canvas_Push e (New d nil_slice, empty_store)) = [Some (Push zero_cr)]
   \<and> VgCall F (snd (Canvas_Push e (New d nil_slice, empty_store))) (Push zero_cr)
       = ''&{{%!s(bool=false)  %!s(int=0)}}Push()''"
  by (simp add: exec_defs empty_store_def Let_def log_of_def log_refs_def deref_def
      Push_VgCall_def fmt_s_record_ptr_def zero_cr_def show_int_def show_nat.simps)

section \<open>Reset\<close>

text \<open>
  C5, as amended. After any sequence of calls on a canvas made by \<^verbatim>\<open>New\<close>, \<^verbatim>\<open>Reset\<close> does
  not panic and makes the log equal to the baseline, in length and in content. It
  allocates nothing and writes nothing new: the store is as before and the log keeps the
  array it had. A second \<^verbatim>\<open>Reset\<close> changes nothing, and whatever is called after the
  \<^verbatim>\<open>Reset\<close>, the baseline reads as before.
\<close>

theorem Reset_restores_base:
  assumes "slice_ok (act_arrs s0) b" and "refs_ok s0 (slice_elems (act_arrs s0) b)"
    and run: "run ks (New d b, s0) = Some st"
  shows "\<exists>st'. Canvas_Reset st = Some st'
           \<and> log_of st' = base_of st \<and> base_of st' = base_of st
           \<and> length (log_of st') = sl_len (Base (fst st'))
           \<and> snd st' = snd st
           \<and> sl_ptr (Actions (fst st')) = sl_ptr (Actions (fst st))
           \<and> Canvas_Reset st' = Some st'
           \<and> (\<forall>ks'. \<exists>st''. run ks' st' = Some st'' \<and> base_of st'' = base_of st)"
proof -
  have i0: "canvas_inv (New d b, s0)" using assms(1,2) by (rule New_inv)
  have inv: "canvas_inv st" using run_inv[OF i0, of ks] run by auto
  obtain c s where st: "st = (c, s)" by (cases st)
  let ?c' = "c\<lparr>Actions := (Actions c)\<lparr>sl_len := sl_len (Base c)\<rparr>\<rparr>"
  note inv' = inv[unfolded st]
  have r1: "Canvas_Reset (c, s) = Some (?c', s)" using inv' by (rule Canvas_Reset_inv)
  note r2 = Canvas_Reset_step[OF inv']
  have r3: "Canvas_Reset (?c', s) = Some (?c', s)"
    using Canvas_Reset_inv[OF r2(1)] by simp
  have len: "length (log_of (?c', s)) = sl_len (Base ?c')"
    using inv_prefix(2)[OF r2(1)] r2(2,3) by simp
  have after: "\<exists>st''. run ks' (?c', s) = Some st'' \<and> base_of st'' = base_of (c, s)" for ks'
    using run_inv[OF r2(1), of ks'] r2(3) by auto
  show ?thesis using r1 r2 r3 len after by (simp add: st)
qed

theorem Reset_restores_base_witness:
  "slice_ok (act_arrs test_store) test_base
   \<and> refs_ok test_store (slice_elems (act_arrs test_store) test_base)
   \<and> (\<exists>st. run test_calls (New 72 test_base, test_store) = Some st
        \<and> (\<exists>st'. Canvas_Reset st = Some st'
              \<and> log_of st' = [Some (FillString ''Foo'' 12 0 10 ''Bar'' zero_cr)]
              \<and> Canvas_Reset st' = Some st'))"
proof -
  have h1: "slice_ok (act_arrs test_store) test_base"
    by (simp add: test_defs slice_ok_def)
  have h2: "refs_ok test_store (slice_elems (act_arrs test_store) test_base)"
    by (simp add: test_defs refs_ok_def slice_elems_def arr_at_def)
  obtain st where h3: "run test_calls (New 72 test_base, test_store) = Some st"
    and b: "base_of st = base_of (New 72 test_base, test_store)"
    using run_inv[OF New_inv[OF h1 h2], of test_calls 72] by blast
  have b0: "base_of (New 72 test_base, test_store)
      = [Some (FillString ''Foo'' 12 0 10 ''Bar'' zero_cr)]"
    by (simp add: test_defs base_of_def base_refs_def New_def slice_elems_def arr_at_def deref_def)
  from Reset_restores_base[OF h1 h2 h3] show ?thesis using h1 h2 h3 b b0 by auto
qed

text \<open>A baseline with spare capacity, then \<^verbatim>\<open>Push\<close> and \<^verbatim>\<open>Reset\<close>: the log is the
  baseline's own slice, the \<^verbatim>\<open>Push\<close> has written into the baseline's array, and
  \<^verbatim>\<open>c.Actions[0] = nil\<close> then changes the baseline.\<close>

theorem Reset_storage_counterexample:
  "run [(test_env, Call_Push), (test_env, Call_Reset)] (New 72 spare_base, spare_store)
     = Some (\<lparr>Resolution = 72, Base = spare_base, Actions = spare_base, KeepCaller = False\<rparr>,
             spare_store\<lparr>act_arrs := [[Some 0, Some 1]],
                          objs := objs spare_store @ [Push zero_cr]\<rparr>)
   \<and> go_store [[Some 0, Some 1]] spare_base 0 None = Some [[None, Some 1]]
   \<and> base_of (\<lparr>Resolution = 72, Base = spare_base, Actions = spare_base, KeepCaller = False\<rparr>,
               spare_store\<lparr>act_arrs := [[Some 0, Some 1]],
                            objs := objs spare_store @ [Push zero_cr]\<rparr>)
       = [Some (FillString ''Foo'' 12 0 10 ''Bar'' zero_cr)]
   \<and> base_of (\<lparr>Resolution = 72, Base = spare_base, Actions = spare_base, KeepCaller = False\<rparr>,
               spare_store\<lparr>act_arrs := [[None, Some 1]],
                            objs := objs spare_store @ [Push zero_cr]\<rparr>)
       = [None]"
  by (simp add: test_defs spare_base_def spare_store_def exec_defs Let_def go_store_def
      base_of_def base_refs_def deref_def)

section \<open>The DPI query\<close>

text \<open>
  C6. In every state a sequence of calls reaches from \<^verbatim>\<open>New(d, b)\<close>, the call \<^verbatim>\<open>DPI()\<close>
  returns \<open>d\<close> and appends one \<^verbatim>\<open>DPI\<close> record to the log (stamped when the flag is on);
  right after construction it returns \<open>d\<close>.
\<close>

theorem DPI_query:
  assumes "slice_ok (act_arrs s0) b" and "refs_ok s0 (slice_elems (act_arrs s0) b)"
    and run: "run ks (New d b, s0) = Some st"
  shows "fst (Canvas_DPI e st) = d
       \<and> log_of (snd (Canvas_DPI e st))
           = log_of st @ [Some (DPI (if KeepCaller (fst st) then caller e zero_cr else zero_cr))]
       \<and> fst (Canvas_DPI e (New d b, s0)) = d"
proof -
  have i0: "canvas_inv (New d b, s0)" using assms(1,2) by (rule New_inv)
  have res: "fst (Canvas_DPI e x) = Resolution (fst x)"
       "log_of (snd (Canvas_DPI e x))
           = log_of x @ [Some (DPI (if KeepCaller (fst x) then caller e zero_cr else zero_cr))]"
    if inv: "canvas_inv x" for x :: "('a, 'b, 'c) state"
  proof -
    obtain c s where x: "x = (c, s)" by (cases x)
    have p: "is_primitive (Call_DPI :: ('a, 'b) call)" by simp
    obtain a s1 c' s' where *: "literal e (Call_DPI :: ('a, 'b) call) s = Some (a, s1)"
      "exec e (Call_DPI :: ('a, 'b) call) (c, s) = Some (c', s')"
      "log_of (c', s') = log_of (c, s) @ [Some (stamped (KeepCaller c) e a)]"
      "c' = c\<lparr>Actions := Actions c'\<rparr>"
      using primitive_step[OF inv[unfolded x] p, of e] by blast
    have a: "a = DPI zero_cr" using *(1) by simp
    have sn: "snd (Canvas_DPI e (c, s)) = (c', s')" using *(2) by simp
    have r: "Resolution c' = Resolution c" by (subst *(4)) simp
    have f: "fst (Canvas_DPI e (c, s)) = Resolution (fst (snd (Canvas_DPI e (c, s))))"
      by (simp add: Canvas_DPI_def Let_def split: prod.splits)
    show "fst (Canvas_DPI e x) = Resolution (fst x)"
      using f sn r by (simp add: x)
    show "log_of (snd (Canvas_DPI e x))
           = log_of x @ [Some (DPI (if KeepCaller (fst x) then caller e zero_cr else zero_cr))]"
      using sn *(3) a by (simp add: x stamped_def)
  qed
  obtain st' where st': "run ks (New d b, s0) = Some st'" "canvas_inv st'"
      "Resolution (fst st') = Resolution (fst (New d b, s0))"
    using run_inv[OF i0, of ks] by blast
  then have st: "canvas_inv st" "Resolution (fst st) = d"
    using run by (simp_all add: New_def)
  show ?thesis using res[OF st(1)] res(1)[OF i0] st(2) by (simp add: New_def)
qed

theorem DPI_query_witness:
  "slice_ok (act_arrs test_store) test_base
   \<and> refs_ok test_store (slice_elems (act_arrs test_store) test_base)
   \<and> run [(test_env, Call_Push), (test_env, Call_Reset)] (New 72 test_base, test_store)
       = Some (\<lparr>Resolution = 72, Base = test_base,
                 Actions = \<lparr>sl_ptr = Some 1, sl_off = 0, sl_len = 1, sl_cap = 3\<rparr>,
                 KeepCaller = False\<rparr>,
               test_store\<lparr>act_arrs := [[Some 0], [Some 0, Some 1, None]],
                           objs := objs test_store @ [Push zero_cr]\<rparr>)
   \<and> fst (Canvas_DPI test_env
             (\<lparr>Resolution = 72, Base = test_base,
                 Actions = \<lparr>sl_ptr = Some 1, sl_off = 0, sl_len = 1, sl_cap = 3\<rparr>,
                 KeepCaller = False\<rparr>,
               test_store\<lparr>act_arrs := [[Some 0], [Some 0, Some 1, None]],
                           objs := objs test_store @ [Push zero_cr]\<rparr>)) = 72"
proof -
  have h1: "slice_ok (act_arrs test_store) test_base"
    by (simp add: test_defs slice_ok_def)
  have h2: "refs_ok test_store (slice_elems (act_arrs test_store) test_base)"
    by (simp add: test_defs refs_ok_def slice_elems_def arr_at_def)
  have h3: "run [(test_env, Call_Push), (test_env, Call_Reset)] (New 72 test_base, test_store)
       = Some (\<lparr>Resolution = 72, Base = test_base,
                 Actions = \<lparr>sl_ptr = Some 1, sl_off = 0, sl_len = 1, sl_cap = 3\<rparr>,
                 KeepCaller = False\<rparr>,
               test_store\<lparr>act_arrs := [[Some 0], [Some 0, Some 1, None]],
                           objs := objs test_store @ [Push zero_cr]\<rparr>)"
    by (simp add: test_defs exec_defs Let_def)
  from DPI_query[OF h1 h2 h3, of test_env] show ?thesis using h1 h2 h3 by simp
qed

section \<open>Copies of dash lists and paths\<close>

text \<open>
  C7. \<^verbatim>\<open>SetLineDash\<close>, \<^verbatim>\<open>Stroke\<close> and \<^verbatim>\<open>Fill\<close> append a record whose slice holds the elements
  the argument had at the call. Whatever is written afterwards to any array that existed
  before the call, the caller's among them, the recorded elements and the rendering of
  the record stay the same.
\<close>

theorem defensive_copies:
  fixes st :: "('f::zero, 'c, 'p::zero) state"
  assumes "canvas_inv st"
  shows "(\<exists>ds cr. last (log_of (Canvas_SetLineDash e dashes offs st)) = Some (SetLineDash ds offs cr)
           \<and> slice_elems (len_arrs (snd (Canvas_SetLineDash e dashes offs st))) ds
               = slice_elems (len_arrs (snd st)) dashes
           \<and> (\<forall>a ys. a < length (len_arrs (snd st)) \<longrightarrow>
                 slice_elems (len_arrs (overwrite_lengths
                     (snd (Canvas_SetLineDash e dashes offs st)) a ys)) ds
                   = slice_elems (len_arrs (snd st)) dashes
                 \<and> VgCall F (overwrite_lengths (snd (Canvas_SetLineDash e dashes offs st)) a ys)
                     (SetLineDash ds offs cr)
                   = VgCall F (snd (Canvas_SetLineDash e dashes offs st))
                     (SetLineDash ds offs cr)))
       \<and> (\<exists>p cr. last (log_of (Canvas_Stroke e path st)) = Some (Stroke p cr)
           \<and> slice_elems (path_arrs (snd (Canvas_Stroke e path st))) p
               = slice_elems (path_arrs (snd st)) path
           \<and> (\<forall>a ys. a < length (path_arrs (snd st)) \<longrightarrow>
                 slice_elems (path_arrs (overwrite_path (snd (Canvas_Stroke e path st)) a ys)) p
                   = slice_elems (path_arrs (snd st)) path
                 \<and> VgCall F (overwrite_path (snd (Canvas_Stroke e path st)) a ys) (Stroke p cr)
                   = VgCall F (snd (Canvas_Stroke e path st)) (Stroke p cr)))
       \<and> (\<exists>p cr. last (log_of (Canvas_Fill e path st)) = Some (Fill p cr)
           \<and> slice_elems (path_arrs (snd (Canvas_Fill e path st))) p
               = slice_elems (path_arrs (snd st)) path
           \<and> (\<forall>a ys. a < length (path_arrs (snd st)) \<longrightarrow>
                 slice_elems (path_arrs (overwrite_path (snd (Canvas_Fill e path st)) a ys)) p
                   = slice_elems (path_arrs (snd st)) path
                 \<and> VgCall F (overwrite_path (snd (Canvas_Fill e path st)) a ys) (Fill p cr)
                   = VgCall F (snd (Canvas_Fill e path st)) (Fill p cr)))"
  using SetLineDash_copy[OF assms, of e dashes offs F] Stroke_copy[OF assms, of e path F]
    Fill_copy[OF assms, of e path F]
  by (intro conjI)

theorem defensive_copies_witness:
  "canvas_inv (New 72 test_base, test_store)
   \<and> (\<exists>p cr. last (log_of (Canvas_Stroke test_env test_path (New 72 test_base, test_store)))
                 = Some (Stroke p cr)
          \<and> slice_elems (path_arrs (snd (Canvas_Stroke test_env test_path
                (New 72 test_base, test_store)))) p = [1])"
proof -
  have h1: "canvas_inv (New 72 test_base, test_store)"
    by (simp add: canvas_inv_def New_def test_defs slice_ok_def slice_elems_def arr_at_def
        refs_ok_def)
  have h2: "slice_elems (path_arrs (snd (New (72 :: real) test_base, test_store))) test_path = [1]"
    by (simp add: test_defs slice_elems_def arr_at_def)
  note d = defensive_copies[OF h1, where e = test_env and path = test_path]
  from d[THEN conjunct2, THEN conjunct1] obtain p cr where
    "last (log_of (Canvas_Stroke test_env test_path (New 72 test_base, test_store)))
       = Some (Stroke p cr)"
    "slice_elems (path_arrs (snd (Canvas_Stroke test_env test_path
        (New 72 test_base, test_store)))) p
       = slice_elems (path_arrs (snd (New (72 :: real) test_base, test_store))) test_path"
    by blast
  then show ?thesis using h1 h2 by auto
qed

section \<open>Stamps of Push, Pop and DPI\<close>

text \<open>
  C8. A record appended while the flag is on is to render beginning with the file and the
  line of its call, right before the name of the primitive. With the flag on, \<^verbatim>\<open>Push\<close>
  appends a record that carries the stamp, and no stamped \<^verbatim>\<open>Push\<close>, \<^verbatim>\<open>Pop\<close> or \<^verbatim>\<open>DPI\<close>
  record renders as its stamp text followed by the name: called from line 20 of the test
  file, the \<^verbatim>\<open>Push\<close> record renders as the dump of its fields before \<^verbatim>\<open>Push()\<close> and does not
  begin with \<^verbatim>\<open>recorder_test.go:20 \<close>.
\<close>

theorem Push_stamp_misrendered:
  "log_of (Canvas_Push e ((New d nil_slice)\<lparr>KeepCaller := True\<rparr>, empty_store))
     = [Some (Push (caller e zero_cr))]
   \<and> VgCall F s (Push (caller e zero_cr)) \<noteq> callRecorder_String (caller e zero_cr) @ ''Push()''
   \<and> VgCall F s (Pop (caller e zero_cr)) \<noteq> callRecorder_String (caller e zero_cr) @ ''Pop()''
   \<and> VgCall F s (DPI (caller e zero_cr)) \<noteq> callRecorder_String (caller e zero_cr) @ ''DPI()''
   \<and> caller test_env zero_cr
       = \<lparr>haveCaller = True, cr_file = ''recorder_test.go'', cr_line = 20\<rparr>
   \<and> callRecorder_String (caller test_env zero_cr) = ''recorder_test.go:20 ''
   \<and> VgCall F s (Push (caller test_env zero_cr))
       = ''&{{%!s(bool=true) recorder_test.go %!s(int=20)}}Push()''
   \<and> take (length ''recorder_test.go:20 '') (VgCall F s (Push (caller test_env zero_cr)))
       \<noteq> ''recorder_test.go:20 ''"
proof -
  have l: "length (fmt_s_record_ptr cr) > length (callRecorder_String cr)" for cr
    by (simp add: fmt_s_record_ptr_def callRecorder_String_def)
  have n: "fmt_s_record_ptr cr @ t \<noteq> callRecorder_String cr @ t" for cr t
    using l[of cr] by auto
  have a: "log_of (Canvas_Push e ((New d nil_slice)\<lparr>KeepCaller := True\<rparr>, empty_store))
     = [Some (Push (caller e zero_cr))]"
    by (simp add: exec_defs empty_store_def Let_def log_of_def log_refs_def deref_def)
  have c: "caller test_env zero_cr
       = \<lparr>haveCaller = True, cr_file = ''recorder_test.go'', cr_line = 20\<rparr>"
    by (simp add: caller_def test_env_def zero_cr_def)
  have r: "VgCall F s (Push (caller test_env zero_cr))
       = ''&{{%!s(bool=true) recorder_test.go %!s(int=20)}}Push()''"
    unfolding c by (simp add: Push_VgCall_def fmt_s_record_ptr_def show_int_def show_nat.simps)
  have p: "callRecorder_String (caller test_env zero_cr) = ''recorder_test.go:20 ''"
    unfolding c by (simp add: callRecorder_String_def show_int_def show_nat.simps)
  have t: "take (length ''recorder_test.go:20 '') (VgCall F s (Push (caller test_env zero_cr)))
       \<noteq> ''recorder_test.go:20 ''"
    unfolding r by simp
  show ?thesis using a n c r p t
    by (simp add: Push_VgCall_def Pop_VgCall_def DPI_VgCall_def)
qed

section \<open>The frame of a call\<close>

text \<open>
  C9. A primitive call, the DPI query among them, and \<^verbatim>\<open>Reset\<close> change no field of the
  canvas but \<^verbatim>\<open>Actions\<close>: \<^verbatim>\<open>Resolution\<close>, \<^verbatim>\<open>KeepCaller\<close> and \<^verbatim>\<open>Base\<close> are as before.
\<close>

theorem frame_property:
  assumes "exec e k st = Some st'" and "is_primitive k \<or> k = Call_Reset"
  shows "fst st' = (fst st)\<lparr>Actions := Actions (fst st')\<rparr>
       \<and> Resolution (fst st') = Resolution (fst st)
       \<and> KeepCaller (fst st') = KeepCaller (fst st)
       \<and> Base (fst st') = Base (fst st)"
proof -
  obtain c s where st: "st = (c, s)" by (cases st)
  have "fst st' = (fst st)\<lparr>Actions := Actions (fst st')\<rparr>"
  proof (cases "is_primitive k")
    case True
    obtain a s1 where "exec e k (c, s)
        = Some (Canvas_append e (length (objs s)) (c, s1\<lparr>objs := objs s @ [a]\<rparr>))"
      using exec_primitive[OF True, of e s c] by blast
    then have "st' = Canvas_append e (length (objs s)) (c, s1\<lparr>objs := objs s @ [a]\<rparr>)"
      using assms(1) by (simp add: st)
    then show ?thesis using Canvas_append_frame[of e "length (objs s)" c] by (simp add: st)
  next
    case False
    then have "k = Call_Reset" using assms(2) by simp
    then show ?thesis using assms(1)
      by (auto simp: st Canvas_Reset_def split: option.splits)
  qed
  then have only: "fst st' = (fst st)\<lparr>Actions := Actions (fst st')\<rparr>" .
  have "Resolution (fst st') = Resolution (fst st)" by (subst only) simp
  moreover have "KeepCaller (fst st') = KeepCaller (fst st)" by (subst only) simp
  moreover have "Base (fst st') = Base (fst st)" by (subst only) simp
  ultimately show ?thesis using only by simp
qed

theorem frame_property_witness:
  "exec test_env (Call_Push :: (real, nat) call) (New 72 test_base, test_store)
     = Some (\<lparr>Resolution = 72, Base = test_base,
               Actions = \<lparr>sl_ptr = Some 1, sl_off = 0, sl_len = 2, sl_cap = 3\<rparr>,
               KeepCaller = False\<rparr>,
             test_store\<lparr>act_arrs := [[Some 0], [Some 0, Some 1, None]],
                         objs := objs test_store @ [Push zero_cr]\<rparr>)
   \<and> (is_primitive (Call_Push :: (real, nat) call) \<or> (Call_Push :: (real, nat) call) = Call_Reset)
   \<and> Base (fst (New (72 :: real) test_base, test_store)) = test_base"
proof -
  have h1: "exec test_env (Call_Push :: (real, nat) call) (New 72 test_base, test_store)
     = Some (\<lparr>Resolution = 72, Base = test_base,
               Actions = \<lparr>sl_ptr = Some 1, sl_off = 0, sl_len = 2, sl_cap = 3\<rparr>,
               KeepCaller = False\<rparr>,
             test_store\<lparr>act_arrs := [[Some 0], [Some 0, Some 1, None]],
                         objs := objs test_store @ [Push zero_cr]\<rparr>)"
    by (simp add: test_defs exec_defs Let_def)
  have h2: "is_primitive (Call_Push :: (real, nat) call) \<or> (Call_Push :: (real, nat) call) = Call_Reset"
    by simp
  from frame_property[OF h1 h2] show ?thesis using h1 h2 by simp
qed

section \<open>FillString keeps the name and the size\<close>

text \<open>
  C10. \<^verbatim>\<open>FillString\<close> called with the value of a font variable appends a record that holds
  the name and the size the font had at the call. Whatever the variable is set to
  afterwards, the record in the log and its rendering stay the same.
\<close>

theorem FillString_snapshot:
  fixes st :: "('f::zero, 'c, 'p::zero) state"
  assumes "canvas_inv st" and "p < length (font_vars (snd st))"
  shows "\<exists>cr. last (log_of (Canvas_FillString e (font_vars (snd st) ! p) x y str st))
             = Some (FillString (Name (font_vars (snd st) ! p)) (Size (font_vars (snd st) ! p))
                  x y str cr)
           \<and> (\<forall>font'.
                 last (log_of (fst (Canvas_FillString e (font_vars (snd st) ! p) x y str st),
                    overwrite_font (snd (Canvas_FillString e (font_vars (snd st) ! p) x y str st))
                      p font'))
                   = Some (FillString (Name (font_vars (snd st) ! p))
                        (Size (font_vars (snd st) ! p)) x y str cr)
                 \<and> VgCall F (overwrite_font
                        (snd (Canvas_FillString e (font_vars (snd st) ! p) x y str st)) p font')
                      (FillString (Name (font_vars (snd st) ! p))
                        (Size (font_vars (snd st) ! p)) x y str cr)
                   = VgCall F (snd (Canvas_FillString e (font_vars (snd st) ! p) x y str st))
                      (FillString (Name (font_vars (snd st) ! p))
                        (Size (font_vars (snd st) ! p)) x y str cr))"
proof -
  obtain c s where st: "st = (c, s)" by (cases st)
  let ?font = "font_vars s ! p"
  let ?k = "Call_FillString ?font x y str :: ('f, 'c) call"
  have prim: "is_primitive ?k" by simp
  obtain a s1 c' s' where *: "literal e ?k s = Some (a, s1)" "exec e ?k (c, s) = Some (c', s')"
      "log_of (c', s') = log_of (c, s) @ [Some (stamped (KeepCaller c) e a)]"
    using primitive_step[OF assms(1)[unfolded st] prim, of e] by blast
  have a: "a = FillString (Name ?font) (Size ?font) x y str zero_cr" using *(1) by auto
  have r: "Canvas_FillString e ?font x y str (c, s) = (c', s')" using *(2) by simp
  have l: "last (log_of (c', s'))
      = Some (FillString (Name ?font) (Size ?font) x y str
               (if KeepCaller c then caller e zero_cr else zero_cr))"
    using *(3) by (simp add: a stamped_def)
  show ?thesis using l by (simp add: st r)
qed

theorem FillString_snapshot_witness:
  "canvas_inv (New 72 test_base, test_store) \<and> 0 < length (font_vars test_store)
   \<and> (\<exists>cr. last (log_of (Canvas_FillString test_env \<lparr>Size = 12, Name = ''Foo''\<rparr> 0 10 ''Bar''
                (New 72 test_base, test_store)))
             = Some (FillString ''Foo'' 12 0 10 ''Bar'' cr))"
proof -
  have h1: "canvas_inv (New 72 test_base, test_store)"
    by (simp add: canvas_inv_def New_def test_defs slice_ok_def slice_elems_def arr_at_def
        refs_ok_def)
  have h2: "0 < length (font_vars (snd (New (72 :: real) test_base, test_store)))"
    by (simp add: test_defs)
  have h3: "font_vars (snd (New (72 :: real) test_base, test_store)) ! 0
      = \<lparr>Size = 12, Name = ''Foo''\<rparr>"
    by (simp add: test_defs)
  from FillString_snapshot[OF h1 h2, of test_env 0 10 "''Bar''"] show ?thesis
    using h1 h2 h3 by auto
qed

end
